theory Spec2Isabelle
  imports Main "HOL-Library.Sublist"
begin

section \<open>JavaScript strings and regular expressions\<close>

text \<open>
  A JavaScript string is modelled as a \<^typ>\<open>string\<close>; a \<^typ>\<open>char\<close> stands for a
  UTF-16 code unit below 256, so \<open>CHR 0xA0\<close> is the no-break space. Code units from 256
  on are outside the model.
\<close>

abbreviation NL :: char where "NL \<equiv> CHR 0x0A"
abbreviation CR :: char where "CR \<equiv> CHR 0x0D"
abbreviation BACKSLASH :: char where "BACKSLASH \<equiv> CHR 0x5C"
abbreviation DQUOTE :: char where "DQUOTE \<equiv> CHR 0x22"

text \<open>The class \<open>\s\<close> of a regular expression, which is also what \<open>String.prototype.trim\<close> strips.\<close>

definition isWhiteSpace :: "char \<Rightarrow> bool" where
  "isWhiteSpace c \<longleftrightarrow>
     c = CHR 0x09 \<or> c = NL \<or> c = CHR 0x0B \<or> c = CHR 0x0C \<or> c = CR \<or> c = CHR 0x20 \<or> c = CHR 0xA0"

definition trim :: "string \<Rightarrow> string" where
  "trim s = rev (dropWhile isWhiteSpace (rev (dropWhile isWhiteSpace s)))"

text \<open>
  A regular expression is modelled by its matcher at one position: \<open>m s = Some (g, rest)\<close>
  when the expression matches a prefix of \<open>s\<close>, with \<open>g\<close> the text of capture group 1
  (empty when there is none) and \<open>rest\<close> what follows the match; \<open>None\<close> when it does not
  match at the start of \<open>s\<close>.
\<close>

type_synonym matcher = "string \<Rightarrow> (string \<times> string) option"

text \<open>
  \<open>s.replace(/re/g, rep)\<close>: scan from the left, replace every match, go on after it. After
  an empty match the next code unit is copied and the scan moves one position on.
\<close>

fun replaceAll :: "matcher \<Rightarrow> (string \<Rightarrow> string) \<Rightarrow> string \<Rightarrow> string" where
  "replaceAll m rep [] = (case m [] of None \<Rightarrow> [] | Some (g, _) \<Rightarrow> rep g)"
| "replaceAll m rep (c # cs) =
     (case m (c # cs) of
        None \<Rightarrow> c # replaceAll m rep cs
      | Some (g, rest) \<Rightarrow>
          if length rest \<le> length cs then rep g @ replaceAll m rep rest
          else rep g @ c # replaceAll m rep cs)"

text \<open>
  \<open>s.split(/re/)\<close> on a non-empty string: \<open>seg\<close> is the segment collected since the last
  separator. A match that ends where the segment starts is skipped.
\<close>

fun splitFrom :: "matcher \<Rightarrow> string \<Rightarrow> string \<Rightarrow> string list" where
  "splitFrom m seg [] = [seg]"
| "splitFrom m seg (c # cs) =
     (case m (c # cs) of
        None \<Rightarrow> splitFrom m (seg @ [c]) cs
      | Some (_, rest) \<Rightarrow>
          if length rest \<le> length cs then seg # splitFrom m [] rest
          else if seg = [] then splitFrom m [c] cs
          else seg # splitFrom m [c] cs)"

definition splitRe :: "matcher \<Rightarrow> string \<Rightarrow> string list" where
  "splitRe m s = (if s = [] then (case m [] of None \<Rightarrow> [[]] | Some _ \<Rightarrow> []) else splitFrom m [] s)"

fun stripPrefix :: "string \<Rightarrow> string \<Rightarrow> string option" where
  "stripPrefix [] s = Some s"
| "stripPrefix (p # ps) [] = None"
| "stripPrefix (p # ps) (c # cs) = (if c = p then stripPrefix ps cs else None)"

fun containsStr :: "string \<Rightarrow> string \<Rightarrow> bool" where
  "containsStr pat [] = (pat = [])"
| "containsStr pat (c # cs) = (stripPrefix pat (c # cs) \<noteq> None \<or> containsStr pat cs)"

text \<open>
  The \<open>i\<close> flag without the \<open>u\<close> flag compares code units by their upper case, and never
  maps a code unit from 128 on to an ASCII one: against the ASCII letters of the patterns
  below only the two cases of the same letter are equal.
\<close>

definition toUpperAscii :: "char \<Rightarrow> char" where
  "toUpperAscii c =
     (let n = (of_char c :: nat) in if 97 \<le> n \<and> n \<le> 122 then char_of (n - 32) else c)"

fun stripPrefixCI :: "string \<Rightarrow> string \<Rightarrow> string option" where
  "stripPrefixCI [] s = Some s"
| "stripPrefixCI (p # ps) [] = None"
| "stripPrefixCI (p # ps) (c # cs) =
     (if toUpperAscii c = toUpperAscii p then stripPrefixCI ps cs else None)"

text \<open>The dot of a regular expression matches everything but a line terminator.\<close>

definition isLineTerminator :: "char \<Rightarrow> bool" where
  "isLineTerminator c \<longleftrightarrow> c = NL \<or> c = CR"

text \<open>
  \<open>(.*?)lit\<close> under the \<open>i\<close> flag: the shortest run of non-terminators after which the
  literal follows; \<open>g\<close> collects the run.
\<close>

fun lazyUntilCI :: "string \<Rightarrow> string \<Rightarrow> string \<Rightarrow> (string \<times> string) option" where
  "lazyUntilCI lit g [] = (case stripPrefixCI lit [] of Some rest \<Rightarrow> Some (g, rest) | None \<Rightarrow> None)"
| "lazyUntilCI lit g (c # cs) =
     (case stripPrefixCI lit (c # cs) of
        Some rest \<Rightarrow> Some (g, rest)
      | None \<Rightarrow> if isLineTerminator c then None else lazyUntilCI lit (g @ [c]) cs)"

section \<open>Word count\<close>

text \<open>
  The literal \<open>/\\s+/\<close> of \<open>calculateWordCount\<close>: an escaped backslash, then one or more
  letters \<open>s\<close>.
\<close>

definition reBackslashS :: matcher where
  "reBackslashS s =
     (case s of
        c1 # c2 # rest \<Rightarrow>
          if c1 = BACKSLASH \<and> c2 = CHR ''s'' then Some ([], dropWhile (\<lambda>c. c = CHR ''s'') rest)
          else None
      | _ \<Rightarrow> None)"

definition calculateWordCount :: "string \<Rightarrow> nat" where
  "calculateWordCount text =
     (if trim text \<noteq> [] then length (splitRe reBackslashS (trim text)) else 0)"

section \<open>Article records\<close>

text \<open>
  \<open>articleData\<close> is the object built by \<open>gatherArticleData\<close>; a stored article has the
  same fields and an id and two timestamps. A timestamp is the string that
  \<open>Date.prototype.toISOString\<close> writes for an instant; the model keeps the instant, in
  milliseconds since the epoch, and prints it with \<open>toISOString\<close> below where the code
  compares the strings. The \<open>Date\<close> difference of the sort orders by the instant.
\<close>

type_synonym isoTime = int

record articleData =
  title :: string
  author :: string
  category :: string
  summary :: string
  publicationDate :: string
  content :: string
  htmlContent :: string
  wordCount :: nat

record article = articleData +
  id' :: string
  createdAt :: isoTime
  updatedAt :: isoTime

record autoSaveData = articleData +
  timestamp :: isoTime

section \<open>Markdown export\<close>

text \<open>\<open>/<NAME[^>]*>(.*?)<\/NAME>/gi\<close>, for the tag names h1, h2, h3, strong, em and p.\<close>

definition reTagPair :: "string \<Rightarrow> matcher" where
  "reTagPair name s =
     (case stripPrefixCI (CHR ''<'' # name) s of
        None \<Rightarrow> None
      | Some r \<Rightarrow>
          (case dropWhile (\<lambda>c. c \<noteq> CHR ''>'') r of
             [] \<Rightarrow> None
           | _ # body \<Rightarrow> lazyUntilCI (''</'' @ name @ ''>'') [] body))"

text \<open>\<open>/<br[^>]*>/gi\<close> and \<open>/<[^>]*>/g\<close>.\<close>

definition reBr :: matcher where
  "reBr s =
     (case stripPrefixCI ''<br'' s of
        None \<Rightarrow> None
      | Some r \<Rightarrow> (case dropWhile (\<lambda>c. c \<noteq> CHR ''>'') r of [] \<Rightarrow> None | _ # rest \<Rightarrow> Some ([], rest)))"

definition reAnyTag :: matcher where
  "reAnyTag s =
     (case stripPrefix ''<'' s of
        None \<Rightarrow> None
      | Some r \<Rightarrow> (case dropWhile (\<lambda>c. c \<noteq> CHR ''>'') r of [] \<Rightarrow> None | _ # rest \<Rightarrow> Some ([], rest)))"

text \<open>The eight substitutions of \<open>generateMarkdown\<close> on the HTML body, in the source's order.\<close>

definition htmlToMarkdown :: "string \<Rightarrow> string" where
  "htmlToMarkdown html =
     (let content = html;
          content = replaceAll (reTagPair ''h1'') (\<lambda>g. ''# '' @ g @ [NL]) content;
          content = replaceAll (reTagPair ''h2'') (\<lambda>g. ''## '' @ g @ [NL]) content;
          content = replaceAll (reTagPair ''h3'') (\<lambda>g. ''### '' @ g @ [NL]) content;
          content = replaceAll (reTagPair ''strong'') (\<lambda>g. ''**'' @ g @ ''**'') content;
          content = replaceAll (reTagPair ''em'') (\<lambda>g. ''*'' @ g @ ''*'') content;
          content = replaceAll (reTagPair ''p'') (\<lambda>g. g @ [NL, NL]) content;
          content = replaceAll reBr (\<lambda>_. [NL]) content;
          content = replaceAll reAnyTag (\<lambda>_. []) content
      in content)"

text \<open>
  \<open>generateMarkdown\<close>: the title as a level-one heading, the metadata lines of the fields
  that are not empty, a rule, then the body.
\<close>

definition markdownHeader :: "'a articleData_scheme \<Rightarrow> string" where
  "markdownHeader articleData =
     (let markdown = ''# '' @ title articleData @ [NL, NL];
          markdown = (if author articleData \<noteq> []
                      then markdown @ ''**Author:** '' @ author articleData @ [NL] else markdown);
          markdown = (if publicationDate articleData \<noteq> []
                      then markdown @ ''**Date:** '' @ publicationDate articleData @ [NL] else markdown);
          markdown = (if category articleData \<noteq> []
                      then markdown @ ''**Category:** '' @ category articleData @ [NL] else markdown);
          markdown = (if summary articleData \<noteq> []
                      then markdown @ [NL] @ ''**Summary:** '' @ summary articleData @ [NL] else markdown)
      in markdown @ [NL] @ ''---'' @ [NL, NL])"

definition generateMarkdown :: "'a articleData_scheme \<Rightarrow> string" where
  "generateMarkdown articleData =
     (let markdown = markdownHeader articleData
      in if htmlContent articleData \<noteq> []
         then markdown @ htmlToMarkdown (htmlContent articleData)
         else markdown @ content articleData)"

text \<open>The lines of a text, and the title read back from the first line of a Markdown export.\<close>

fun linesFrom :: "string \<Rightarrow> string \<Rightarrow> string list" where
  "linesFrom seg [] = [seg]"
| "linesFrom seg (c # cs) = (if c = NL then seg # linesFrom [] cs else linesFrom (seg @ [c]) cs)"

definition lines :: "string \<Rightarrow> string list" where
  "lines s = linesFrom [] s"

definition extractTitle :: "string \<Rightarrow> string option" where
  "extractTitle markdown = (case lines markdown of [] \<Rightarrow> None | l # _ \<Rightarrow> stripPrefix ''# '' l)"

section \<open>Sanitized HTML\<close>

text \<open>
  \<open>/ATTR="[^"]*ql-[^"]*[^"]*"/g\<close> for the attributes class and style: the attribute with
  its quoted value, when the value contains \<open>ql-\<close>.
\<close>

definition reQuillAttr :: "string \<Rightarrow> matcher" where
  "reQuillAttr attr s =
     (case stripPrefix (attr @ [CHR ''='', DQUOTE]) s of
        None \<Rightarrow> None
      | Some r \<Rightarrow>
          (case dropWhile (\<lambda>c. c \<noteq> DQUOTE) r of
             [] \<Rightarrow> None
           | _ # rest \<Rightarrow>
               if containsStr ''ql-'' (takeWhile (\<lambda>c. c \<noteq> DQUOTE) r) then Some ([], rest) else None))"

text \<open>\<open>/\s*class\s*=\s*""\s*/g\<close>\<close>

definition reEmptyClass :: matcher where
  "reEmptyClass s =
     (case stripPrefix ''class'' (dropWhile isWhiteSpace s) of
        None \<Rightarrow> None
      | Some r1 \<Rightarrow>
          (case stripPrefix ''='' (dropWhile isWhiteSpace r1) of
             None \<Rightarrow> None
           | Some r2 \<Rightarrow>
               (case stripPrefix [DQUOTE, DQUOTE] (dropWhile isWhiteSpace r2) of
                  None \<Rightarrow> None
                | Some r3 \<Rightarrow> Some ([], dropWhile isWhiteSpace r3))))"

text \<open>\<open>/\s+/g\<close> and \<open>/>\s+</g\<close>\<close>

definition reSpaces :: matcher where
  "reSpaces s =
     (case s of
        [] \<Rightarrow> None
      | c # cs \<Rightarrow> if isWhiteSpace c then Some ([], dropWhile isWhiteSpace cs) else None)"

definition reSpacesBetweenTags :: matcher where
  "reSpacesBetweenTags s =
     (case s of
        c # w # cs \<Rightarrow>
          if c = CHR ''>'' \<and> isWhiteSpace w
          then (case stripPrefix ''<'' (dropWhile isWhiteSpace cs) of
                  None \<Rightarrow> None
                | Some rest \<Rightarrow> Some ([], rest))
          else None
      | _ \<Rightarrow> None)"

text \<open>\<open>/<p><br><\/p>/g\<close> and \<open>/<p>\s*<\/p>/g\<close>\<close>

definition reBreakParagraph :: matcher where
  "reBreakParagraph s = map_option (\<lambda>rest. ([], rest)) (stripPrefix ''<p><br></p>'' s)"

definition reBlankParagraph :: matcher where
  "reBlankParagraph s =
     (case stripPrefix ''<p>'' s of
        None \<Rightarrow> None
      | Some r \<Rightarrow> map_option (\<lambda>rest. ([], rest)) (stripPrefix ''</p>'' (dropWhile isWhiteSpace r)))"

definition cleanHTMLForExport :: "string \<Rightarrow> string" where
  "cleanHTMLForExport htmlContent0 =
     (let cleanHTML = htmlContent0;
          cleanHTML = replaceAll (reQuillAttr ''class'') (\<lambda>_. []) cleanHTML;
          cleanHTML = replaceAll reEmptyClass (\<lambda>_. []) cleanHTML;
          cleanHTML = replaceAll (reQuillAttr ''style'') (\<lambda>_. []) cleanHTML;
          cleanHTML = replaceAll reSpaces (\<lambda>_. '' '') cleanHTML;
          cleanHTML = replaceAll reSpacesBetweenTags (\<lambda>_. ''><'') cleanHTML;
          cleanHTML = replaceAll reBreakParagraph (\<lambda>_. ''<p>&nbsp;</p>'') cleanHTML;
          cleanHTML = replaceAll reBlankParagraph (\<lambda>_. ''<p>&nbsp;</p>'') cleanHTML
      in trim cleanHTML)"

text \<open>
  The word count as the specification words it, with the split on runs of whitespace
  (\<open>/\s+/\<close>, the matcher \<open>reSpaces\<close>), to compare with \<open>calculateWordCount\<close>.
\<close>

definition wordCountAsSpecified :: "string \<Rightarrow> nat" where
  "wordCountAsSpecified text =
     (if trim text \<noteq> [] then length (splitRe reSpaces (trim text)) else 0)"

text \<open>
  The function in two stages: the three substitutions that delete attributes, and the
  four substitutions on whitespace and empty paragraphs followed by the trim. A
  \<open>literal\<close> matcher matches one fixed text. A text is \<open>spaced\<close> when its only
  whitespace is single spaces, and \<open>tidied\<close> when the second stage has nothing left to
  do on it.
\<close>

definition literal :: "string \<Rightarrow> matcher" where
  "literal L s = map_option (\<lambda>rest. ([], rest)) (stripPrefix L s)"

definition removeQuillAttributes :: "string \<Rightarrow> string" where
  "removeQuillAttributes s =
     replaceAll (reQuillAttr ''style'') (\<lambda>_. [])
       (replaceAll reEmptyClass (\<lambda>_. [])
         (replaceAll (reQuillAttr ''class'') (\<lambda>_. []) s))"

definition tidy :: "string \<Rightarrow> string" where
  "tidy s =
     trim (replaceAll reBlankParagraph (\<lambda>_. ''<p>&nbsp;</p>'')
       (replaceAll reBreakParagraph (\<lambda>_. ''<p>&nbsp;</p>'')
         (replaceAll reSpacesBetweenTags (\<lambda>_. ''><'')
           (replaceAll reSpaces (\<lambda>_. '' '') s))))"

definition spaced :: "string \<Rightarrow> bool" where
  "spaced s \<longleftrightarrow> (\<forall>c \<in> set s. isWhiteSpace c \<longrightarrow> c = CHR '' '') \<and> \<not> sublist ''  '' s"

definition tidied :: "string \<Rightarrow> bool" where
  "tidied w \<longleftrightarrow> spaced w \<and> \<not> sublist ''> <'' w \<and> \<not> sublist ''<p><br></p>'' w
     \<and> \<not> sublist ''<p></p>'' w \<and> trim w = w"

section \<open>The editor and its store\<close>

text \<open>
  The state of a \<open>LeadershipBlogCMS\<close> object together with the two \<open>localStorage\<close> slots
  it owns: \<open>storedArticles\<close> is the value under \<open>storageKey\<close> and \<open>autoSaved\<close> the one
  under \<open>autoSaveKey\<close>, \<open>None\<close> when the key is absent. \<open>notifications\<close> lists the calls
  of \<open>showNotification\<close>, oldest first, as pairs of message and type.
\<close>

record cms =
  currentArticle :: "article option"
  isModified :: bool
  articles :: "article list"
  filteredArticles :: "article list"
  conflictResolution :: string
  storedArticles :: "article list option"
  autoSaved :: "autoSaveData option"
  notifications :: "(string \<times> string) list"

text \<open>
  What one call reads from outside the object: the form fields and the Quill editor
  (\<open>quill\<close> is \<open>None\<close> when the editor failed to load, else its HTML and its plain text), the
  clock at each of its reads, the random suffix of a new id, the answers to the
  confirmation dialogs, whether \<open>localStorage.setItem\<close> succeeds, and the percentage
  \<open>updateStorageUsage\<close> computes.
\<close>

record env =
  articleTitle :: string
  articleAuthor :: string
  articleCategory :: string
  articleSummary :: string
  publicationDateInput :: string
  quill :: "(string \<times> string) option"
  clockId :: isoTime
  randomSuffix :: string
  clockCreated :: isoTime
  clockUpdated :: isoTime
  confirmOverwrite :: bool
  confirmDiscard :: bool
  confirmRestore :: bool
  setItemOk :: bool
  usagePercent :: nat

definition showNotification :: "string \<Rightarrow> string \<Rightarrow> cms \<Rightarrow> cms" where
  "showNotification message type st = st\<lparr>notifications := notifications st @ [(message, type)]\<rparr>"

definition handleError :: "string \<Rightarrow> cms \<Rightarrow> cms" where
  "handleError message st = showNotification (message @ ''. Please try again.'') ''error'' st"

definition getStoredArticles :: "cms \<Rightarrow> article list" where
  "getStoredArticles st = (case storedArticles st of None \<Rightarrow> [] | Some stored \<Rightarrow> stored)"

definition loadArticles :: "cms \<Rightarrow> cms" where
  "loadArticles st = st\<lparr>articles := getStoredArticles st, filteredArticles := getStoredArticles st\<rparr>"

definition clearAutoSave :: "cms \<Rightarrow> cms" where
  "clearAutoSave st = st\<lparr>autoSaved := None\<rparr>"

definition updateStorageUsage :: "env \<Rightarrow> cms \<Rightarrow> cms" where
  "updateStorageUsage e st =
     (if usagePercent e > 80
      then showNotification ''Storage is getting full. Consider backing up articles.'' ''warning'' st
      else st)"

text \<open>The decimal digits of a number, and the digits padded with zeros to a width.\<close>

fun digitsOf :: "nat \<Rightarrow> string" where
  "digitsOf n = (if n < 10 then [char_of (48 + n)] else digitsOf (n div 10) @ [char_of (48 + n mod 10)])"

declare digitsOf.simps [simp del]

definition pad :: "nat \<Rightarrow> nat \<Rightarrow> string" where
  "pad w n = replicate (w - length (digitsOf n)) (CHR ''0'') @ digitsOf n"

text \<open>
  \<open>Date.prototype.toISOString\<close>: the year, month and day of the proleptic Gregorian
  calendar for a count of days since 1970-01-01, and the 24 characters
  \<open>YYYY-MM-DDTHH:mm:ss.sssZ\<close> of an instant; a year outside 0 to 9999 is written with a
  sign and six digits. An instant is one that a \<open>Date\<close> holds, at most 8640000000000000
  milliseconds from the epoch, for which \<open>toISOString\<close> does not throw.
\<close>

definition civilFromDays :: "int \<Rightarrow> int \<times> int \<times> int" where
  "civilFromDays days =
     (let z = days + 719468;
          era = z div 146097;
          doe = z mod 146097;
          yoe = (doe - doe div 1460 + doe div 36524 - doe div 146096) div 365;
          doy = doe - (365 * yoe + yoe div 4 - yoe div 100);
          mp = (5 * doy + 2) div 153;
          d = doy - (153 * mp + 2) div 5 + 1;
          m = (if mp < 10 then mp + 3 else mp - 9);
          y = yoe + era * 400 + (if m \<le> 2 then 1 else 0)
      in (y, m, d))"

definition toISOString :: "isoTime \<Rightarrow> string" where
  "toISOString t =
     (let (y, m, d) = civilFromDays (t div 86400000);
          ms = t mod 86400000;
          year = (if 0 \<le> y \<and> y \<le> 9999 then pad 4 (nat y)
                  else (if y < 0 then ''-'' else ''+'') @ pad 6 (nat \<bar>y\<bar>))
      in year @ ''-'' @ pad 2 (nat m) @ ''-'' @ pad 2 (nat d)
         @ ''T'' @ pad 2 (nat (ms div 3600000)) @ '':'' @ pad 2 (nat (ms mod 3600000 div 60000))
         @ '':'' @ pad 2 (nat (ms mod 60000 div 1000)) @ ''.'' @ pad 3 (nat (ms mod 1000)) @ ''Z'')"

text \<open>
  The comparison \<open>x > y\<close> of two strings: code unit by code unit, a proper prefix being
  the smaller.
\<close>

fun strLess :: "string \<Rightarrow> string \<Rightarrow> bool" where
  "strLess [] [] = False"
| "strLess [] (y # ys) = True"
| "strLess (x # xs) [] = False"
| "strLess (x # xs) (y # ys) = ((of_char x :: nat) < of_char y \<or> (x = y \<and> strLess xs ys))"

definition strGreater :: "string \<Rightarrow> string \<Rightarrow> bool" where
  "strGreater x y = strLess y x"

fun findIndex :: "('a \<Rightarrow> bool) \<Rightarrow> 'a list \<Rightarrow> nat option" where
  "findIndex P [] = None"
| "findIndex P (x # xs) = (if P x then Some 0 else map_option Suc (findIndex P xs))"

text \<open>
  \<open>articles.sort((a, b) => new Date(b.updatedAt) - new Date(a.updatedAt))\<close>: a stable sort,
  newest first.
\<close>

definition sortByUpdatedAt :: "article list \<Rightarrow> article list" where
  "sortByUpdatedAt xs = sort_key (\<lambda>a. - updatedAt a) xs"

text \<open>
  \<open>saveToStorage\<close>. The result is the returned boolean and the state after the call. The
  conflict test compares the two \<open>updatedAt\<close> strings. A failing \<open>setItem\<close> is caught:
  the error is reported and nothing is stored.
\<close>

definition saveToStorage :: "env \<Rightarrow> article \<Rightarrow> cms \<Rightarrow> bool \<times> cms" where
  "saveToStorage e article st =
     (let articles0 = getStoredArticles st;
          existingIndex = findIndex (\<lambda>a. id' a = id' article) articles0
      in if (case existingIndex of
               None \<Rightarrow> False
             | Some i \<Rightarrow> strGreater (toISOString (updatedAt (articles0 ! i)))
                                     (toISOString (updatedAt article))
                          \<and> conflictResolution st = ''ask'' \<and> \<not> confirmOverwrite e)
         then (False, showNotification ''Save cancelled due to conflict'' ''warning'' st)
         else
           let articles1 = (case existingIndex of
                              None \<Rightarrow> articles0 @ [article]
                            | Some i \<Rightarrow> articles0[i := article]);
               articles2 = sortByUpdatedAt articles1
           in if \<not> setItemOk e then (False, handleError ''Failed to save article'' st)
              else (True, updateStorageUsage e (clearAutoSave (loadArticles
                            (st\<lparr>storedArticles := Some articles2\<rparr>)))))"

text \<open>A sequence of \<open>saveToStorage\<close> calls, each with what it reads from outside.\<close>

fun saveAll :: "(env \<times> article) list \<Rightarrow> cms \<Rightarrow> cms" where
  "saveAll [] st = st"
| "saveAll ((e, a) # rest) st = saveAll rest (snd (saveToStorage e a st))"

text \<open>Whether some call of the sequence returns \<open>true\<close>.\<close>

fun anyAccepted :: "(env \<times> article) list \<Rightarrow> cms \<Rightarrow> bool" where
  "anyAccepted [] st = False"
| "anyAccepted ((e, a) # rest) st =
     (fst (saveToStorage e a st) \<or> anyAccepted rest (snd (saveToStorage e a st)))"

text \<open>\<open>'article_' + Date.now() + '_' + Math.random().toString(36).substr(2, 9)\<close>\<close>

definition numberToString :: "int \<Rightarrow> string" where
  "numberToString i = (if i < 0 then CHR ''-'' # digitsOf (nat (- i)) else digitsOf (nat i))"

definition generateArticleId :: "env \<Rightarrow> string" where
  "generateArticleId e = ''article_'' @ numberToString (clockId e) @ ''_'' @ randomSuffix e"

definition gatherArticleData :: "env \<Rightarrow> articleData" where
  "gatherArticleData e =
     (let htmlContent0 = (case quill e of None \<Rightarrow> [] | Some (html, text) \<Rightarrow> html);
          content0 = (case quill e of None \<Rightarrow> [] | Some (html, text) \<Rightarrow> text)
      in \<lparr>title = articleTitle e, author = articleAuthor e, category = articleCategory e,
          summary = articleSummary e, publicationDate = publicationDateInput e,
          content = content0, htmlContent = htmlContent0,
          wordCount = calculateWordCount content0\<rparr>)"

text \<open>
  \<open>loadArticleData\<close>: what it writes into the form and the editor is outside the state;
  it keeps the current article and the modified flag.
\<close>

definition loadArticleData :: "env \<Rightarrow> article \<Rightarrow> cms \<Rightarrow> cms" where
  "loadArticleData e article st =
     (if isModified st \<and> \<not> confirmDiscard e then st
      else showNotification (''Article '' @ [DQUOTE] @ title article @ [DQUOTE] @ '' loaded successfully'')
             ''success'' (st\<lparr>currentArticle := Some article, isModified := False\<rparr>))"

definition saveArticle :: "env \<Rightarrow> cms \<Rightarrow> cms" where
  "saveArticle e st =
     (let articleData = gatherArticleData e
      in if trim (title articleData) = []
         then showNotification ''Please enter a title for your article'' ''warning'' st
         else if trim (content articleData) = []
         then showNotification ''Please write some content for your article'' ''warning'' st
         else
           let article =
                 \<lparr>title = title articleData, author = author articleData,
                  category = category articleData, summary = summary articleData,
                  publicationDate = publicationDate articleData, content = content articleData,
                  htmlContent = htmlContent articleData, wordCount = wordCount articleData,
                  id' = (case currentArticle st of
                           None \<Rightarrow> generateArticleId e
                         | Some c \<Rightarrow> if id' c \<noteq> [] then id' c else generateArticleId e),
                  createdAt = (case currentArticle st of
                                 None \<Rightarrow> clockCreated e
                               | Some c \<Rightarrow> createdAt c),
                  updatedAt = clockUpdated e\<rparr>;
               (saved, st1) = saveToStorage e article st
           in if saved
              then showNotification ''Article saved successfully!'' ''success''
                     (st1\<lparr>currentArticle := Some article, isModified := False\<rparr>)
              else st1)"

text \<open>
  \<open>duplicateArticle\<close>: \<open>duplicateOf\<close> is the object literal it builds from the article
  found in \<open>this.articles\<close>.
\<close>

definition duplicateOf :: "env \<Rightarrow> article \<Rightarrow> article" where
  "duplicateOf e article =
     article\<lparr>id' := generateArticleId e, title := ''Copy of '' @ title article,
             createdAt := clockCreated e, updatedAt := clockUpdated e\<rparr>"

definition duplicateArticle :: "env \<Rightarrow> string \<Rightarrow> cms \<Rightarrow> cms" where
  "duplicateArticle e articleId st =
     (case find (\<lambda>a. id' a = articleId) (articles st) of
        None \<Rightarrow> showNotification ''Article not found'' ''error'' st
      | Some article \<Rightarrow>
          let duplicate = duplicateOf e article;
              (saved, st1) = saveToStorage e duplicate st
          in if saved
             then showNotification ''Article duplicated successfully'' ''success''
                    (loadArticleData e duplicate st1)
             else st1)"

section \<open>Backup and restore\<close>

text \<open>
  The value of a property of the parsed backup file. Array elements are article records;
  \<open>JUndefined\<close> is a missing property.
\<close>

datatype jsvalue =
  JUndefined | JNull | JBoolean bool | JNumber int | JString string | JObject
  | JArray "article list"

fun truthy :: "jsvalue \<Rightarrow> bool" where
  "truthy JUndefined = False"
| "truthy JNull = False"
| "truthy (JBoolean b) = b"
| "truthy (JNumber n) = (n \<noteq> 0)"
| "truthy (JString s) = (s \<noteq> [])"
| "truthy JObject = True"
| "truthy (JArray xs) = True"

fun isArray :: "jsvalue \<Rightarrow> bool" where
  "isArray (JArray xs) = True"
| "isArray _ = False"

fun elements :: "jsvalue \<Rightarrow> article list" where
  "elements (JArray xs) = xs"
| "elements _ = []"

record backup =
  articlesField :: jsvalue
  exportDate :: jsvalue
  version :: jsvalue

text \<open>
  The selected file: none, a text on which \<open>JSON.parse\<close> or the property access throws, or
  a parsed value with its properties.
\<close>

datatype backupFile = NoFile | Unparsable | Parsed backup

definition restoreFromBackup :: "env \<Rightarrow> backupFile \<Rightarrow> cms \<Rightarrow> cms" where
  "restoreFromBackup e file st =
     (case file of
        NoFile \<Rightarrow> st
      | Unparsable \<Rightarrow> handleError ''Failed to restore backup'' st
      | Parsed b \<Rightarrow>
          if \<not> truthy (articlesField b) \<or> \<not> isArray (articlesField b)
          then handleError ''Failed to restore backup'' st
          else if \<not> confirmRestore e then st
          else if \<not> setItemOk e then handleError ''Failed to restore backup'' st
          else showNotification ''Backup restored successfully'' ''success''
                 (loadArticles (st\<lparr>storedArticles := Some (elements (articlesField b))\<rparr>)))"

text \<open>Newest first: no record is older than a later one.\<close>

definition sortedByUpdatedAt :: "article list \<Rightarrow> bool" where
  "sortedByUpdatedAt xs \<longleftrightarrow> sorted (map (\<lambda>a. - updatedAt a) xs)"

section \<open>Reading a decimal number back\<close>

text \<open>Digits and the number they denote, to tell apart the ids of different instants.\<close>

definition isDigit :: "char \<Rightarrow> bool" where
  "isDigit c \<longleftrightarrow> 48 \<le> (of_char c :: nat) \<and> (of_char c :: nat) \<le> 57"

fun valueOf :: "nat \<Rightarrow> string \<Rightarrow> nat" where
  "valueOf acc [] = acc"
| "valueOf acc (c # cs) = valueOf (10 * acc + (of_char c - 48)) cs"

section \<open>Sample values\<close>

text \<open>
  The state the constructor leaves over a given store when no draft was auto-saved, a
  record with a given id, title and time of its last save, and surroundings in which
  every dialog is declined (\<open>declining\<close>) or accepted (\<open>agreeing\<close>) and every write
  succeeds; \<open>drafting\<close> has a title and a body in the editor.
\<close>

definition constructed :: "article list option \<Rightarrow> cms" where
  "constructed stored =
     loadArticles \<lparr>currentArticle = None, isModified = False, articles = [], filteredArticles = [],
                   conflictResolution = ''auto'', storedArticles = stored, autoSaved = None,
                   notifications = []\<rparr>"

definition sampleArticle :: "string \<Rightarrow> string \<Rightarrow> isoTime \<Rightarrow> article" where
  "sampleArticle i t u =
     \<lparr>title = t, author = ''Ann'', category = [], summary = [], publicationDate = ''2024-05-01'',
      content = ''Check equipment.'', htmlContent = ''<p>Check equipment.</p>'', wordCount = 1,
      id' = i, createdAt = u, updatedAt = u\<rparr>"

definition declining :: env where
  "declining =
     \<lparr>articleTitle = [], articleAuthor = [], articleCategory = [], articleSummary = [],
      publicationDateInput = [], quill = None, clockId = 1000, randomSuffix = ''k3j9x2m1q'',
      clockCreated = 1000, clockUpdated = 1001, confirmOverwrite = False, confirmDiscard = False,
      confirmRestore = False, setItemOk = True, usagePercent = 1\<rparr>"

definition agreeing :: env where
  "agreeing = declining\<lparr>confirmOverwrite := True, confirmDiscard := True, confirmRestore := True\<rparr>"

definition drafting :: env where
  "drafting = declining\<lparr>articleTitle := ''Safety Drill'',
      quill := Some (''<p>Check equipment. </p>'', ''Check equipment. '')\<rparr>"

section \<open>Word count: what the code computes\<close>

text \<open>
  C1. The word count of the empty string and of a blank string is 0, but the three
  whitespace-separated words of \<open>a b  c\<close> are counted as one segment: the function splits on
  a backslash followed by letters \<open>s\<close>, not on whitespace. Splitting on runs of whitespace,
  as specified, gives 3.
\<close>

theorem calculateWordCount_three_words:
  "calculateWordCount [] = 0 \<and> calculateWordCount ''  '' = 0
   \<and> calculateWordCount ''a b  c'' = 1 \<and> wordCountAsSpecified ''a b  c'' = 3"
  by (simp add: calculateWordCount_def wordCountAsSpecified_def trim_def isWhiteSpace_def
      splitRe_def reBackslashS_def reSpaces_def)

section \<open>The store\<close>

lemma find_findIndex:
  "find P xs = Some x \<Longrightarrow> \<exists>i. findIndex P xs = Some i \<and> xs ! i = x"
  by (induction xs) (auto split: if_splits)

lemma findIndex_Some:
  "findIndex P xs = Some i \<Longrightarrow> i < length xs \<and> P (xs ! i)"
  by (induction xs arbitrary: i) (auto split: if_splits)

lemma sortedByUpdatedAt_sort: "sortedByUpdatedAt (sortByUpdatedAt xs)"
  by (simp add: sortedByUpdatedAt_def sortByUpdatedAt_def)

lemma stored_unchanged [simp]:
  "getStoredArticles (showNotification m t st) = getStoredArticles st"
  "getStoredArticles (handleError m st) = getStoredArticles st"
  "getStoredArticles (updateStorageUsage e st) = getStoredArticles st"
  "getStoredArticles (clearAutoSave st) = getStoredArticles st"
  "getStoredArticles (loadArticles st) = getStoredArticles st"
  by (simp_all add: getStoredArticles_def showNotification_def handleError_def
      updateStorageUsage_def clearAutoSave_def loadArticles_def)

lemma stored_update [simp]: "getStoredArticles (st\<lparr>storedArticles := Some xs\<rparr>) = xs"
  by (simp add: getStoredArticles_def)

lemma policy_unchanged [simp]:
  "conflictResolution (showNotification m t st) = conflictResolution st"
  "conflictResolution (handleError m st) = conflictResolution st"
  "conflictResolution (updateStorageUsage e st) = conflictResolution st"
  "conflictResolution (clearAutoSave st) = conflictResolution st"
  "conflictResolution (loadArticles st) = conflictResolution st"
  by (simp_all add: showNotification_def handleError_def
      updateStorageUsage_def clearAutoSave_def loadArticles_def)

lemma saveToStorage_refused:
  "\<not> fst (saveToStorage e a st) \<Longrightarrow>
     getStoredArticles (snd (saveToStorage e a st)) = getStoredArticles st"
  by (auto simp: saveToStorage_def Let_def split: if_splits option.splits)

lemma saveToStorage_accepted:
  "fst (saveToStorage e a st) \<Longrightarrow>
     getStoredArticles (snd (saveToStorage e a st))
       = sortByUpdatedAt (case findIndex (\<lambda>x. id' x = id' a) (getStoredArticles st) of
                            None \<Rightarrow> getStoredArticles st @ [a]
                          | Some i \<Rightarrow> (getStoredArticles st)[i := a])"
  by (auto simp: saveToStorage_def Let_def split: if_splits option.splits)

lemma saveToStorage_auto:
  "conflictResolution st = ''auto'' \<Longrightarrow> setItemOk e \<Longrightarrow> fst (saveToStorage e a st)"
  by (auto simp: saveToStorage_def Let_def split: option.splits)

lemma saveToStorage_policy [simp]:
  "conflictResolution (snd (saveToStorage e a st)) = conflictResolution st"
  by (auto simp: saveToStorage_def Let_def split: option.splits)

lemma saveToStorage_sorted:
  "fst (saveToStorage e a st) \<Longrightarrow> sortedByUpdatedAt (getStoredArticles (snd (saveToStorage e a st)))"
  by (simp add: saveToStorage_accepted sortedByUpdatedAt_sort)

lemma saveToStorage_keeps_sorted:
  "sortedByUpdatedAt (getStoredArticles st) \<Longrightarrow>
     sortedByUpdatedAt (getStoredArticles (snd (saveToStorage e a st)))"
  by (cases "fst (saveToStorage e a st)") (simp_all add: saveToStorage_sorted saveToStorage_refused)

lemma saveAll_keeps_sorted:
  "sortedByUpdatedAt (getStoredArticles st) \<Longrightarrow> sortedByUpdatedAt (getStoredArticles (saveAll ps st))"
  by (induction ps arbitrary: st) (auto simp: saveToStorage_keeps_sorted)

lemma saveAll_auto_sorted:
  "ps \<noteq> [] \<Longrightarrow> conflictResolution st = ''auto'' \<Longrightarrow> \<forall>p \<in> set ps. setItemOk (fst p) \<Longrightarrow>
     sortedByUpdatedAt (getStoredArticles (saveAll ps st))"
proof (cases ps)
  case Nil
  assume "ps \<noteq> []" with Nil show ?thesis by simp
next
  case (Cons p rest)
  assume auto: "conflictResolution st = ''auto''" and ok: "\<forall>p \<in> set ps. setItemOk (fst p)"
  obtain e a where p: "p = (e, a)" by (cases p)
  have "fst (saveToStorage e a st)" using auto ok Cons p by (simp add: saveToStorage_auto)
  then have "sortedByUpdatedAt (getStoredArticles (snd (saveToStorage e a st)))"
    by (rule saveToStorage_sorted)
  then show ?thesis using Cons p by (simp add: saveAll_keeps_sorted)
qed

lemma filter_update_first:
  "findIndex P xs = Some i \<Longrightarrow> P a \<Longrightarrow> length (filter P xs) \<le> 1 \<Longrightarrow> filter P (xs[i := a]) = [a]"
proof (induction xs arbitrary: i)
  case Nil
  then show ?case by simp
next
  case (Cons x xs)
  show ?case
  proof (cases "P x")
    case True
    with Cons.prems have "i = 0" and "filter P xs = []" by auto
    with True Cons.prems show ?thesis by simp
  next
    case False
    with Cons.prems obtain j where "findIndex P xs = Some j" "i = Suc j" by auto
    with False Cons show ?thesis by simp
  qed
qed

lemma findIndex_None: "findIndex P xs = None \<Longrightarrow> filter P xs = []"
  by (induction xs) (auto split: if_splits)

lemma saveToStorage_single:
  assumes "fst (saveToStorage e a st)"
    and "length (filter (\<lambda>x. id' x = id' a) (getStoredArticles st)) \<le> 1"
  shows "filter (\<lambda>x. id' x = id' a) (getStoredArticles (snd (saveToStorage e a st))) = [a]"
proof (cases "findIndex (\<lambda>x. id' x = id' a) (getStoredArticles st)")
  case None
  then show ?thesis
    using assms(1) by (simp add: saveToStorage_accepted sortByUpdatedAt_def filter_sort findIndex_None)
next
  case (Some i)
  then show ?thesis
    using assms by (simp add: saveToStorage_accepted sortByUpdatedAt_def filter_sort filter_update_first)
qed

lemma saveToStorage_member:
  assumes "fst (saveToStorage e a st)"
  shows "a \<in> set (getStoredArticles (snd (saveToStorage e a st)))"
proof (cases "findIndex (\<lambda>x. id' x = id' a) (getStoredArticles st)")
  case None
  then show ?thesis using assms by (simp add: saveToStorage_accepted sortByUpdatedAt_def)
next
  case (Some i)
  then have "i < length (getStoredArticles st)" by (simp add: findIndex_Some)
  then show ?thesis
    using assms Some by (simp add: saveToStorage_accepted sortByUpdatedAt_def set_update_memI)
qed










lemma saveToStorage_auto_iff:
  "conflictResolution st = ''auto'' \<Longrightarrow> fst (saveToStorage e a st) = setItemOk e"
  by (auto simp: saveToStorage_def Let_def split: option.splits)

lemma anyAccepted_auto:
  "conflictResolution st = ''auto'' \<Longrightarrow> anyAccepted ps st = (\<exists>p \<in> set ps. setItemOk (fst p))"
proof (induction ps arbitrary: st)
  case Nil
  then show ?case by simp
next
  case (Cons p ps)
  obtain e a where p: "p = (e, a)" by (cases p)
  have "conflictResolution (snd (saveToStorage e a st)) = ''auto''" using Cons.prems by simp
  from Cons.IH [OF this] Cons.prems p show ?case by (simp add: saveToStorage_auto_iff)
qed

lemma saveAll_sorted_iff:
  "sortedByUpdatedAt (getStoredArticles (saveAll ps st))
     \<longleftrightarrow> anyAccepted ps st \<or> sortedByUpdatedAt (getStoredArticles st)"
proof (induction ps arbitrary: st)
  case Nil
  then show ?case by simp
next
  case (Cons p ps)
  obtain e a where p: "p = (e, a)" by (cases p)
  show ?case
  proof (cases "fst (saveToStorage e a st)")
    case True
    then have "sortedByUpdatedAt (getStoredArticles (snd (saveToStorage e a st)))"
      by (rule saveToStorage_sorted)
    with Cons.IH [of "snd (saveToStorage e a st)"] True p show ?thesis by simp
  next
    case False
    then have "getStoredArticles (snd (saveToStorage e a st)) = getStoredArticles st"
      by (rule saveToStorage_refused)
    with Cons.IH [of "snd (saveToStorage e a st)"] False p show ?thesis by simp
  qed
qed

lemma filter_update_same:
  "i < length xs \<Longrightarrow> P (xs ! i) \<Longrightarrow> P a \<Longrightarrow> length (filter P (xs[i := a])) = length (filter P xs)"
proof (induction xs arbitrary: i)
  case Nil
  then show ?case by simp
next
  case (Cons x xs)
  then show ?case by (cases i) auto
qed

lemma saveToStorage_count:
  assumes "fst (saveToStorage e a st)"
  shows "length (filter (\<lambda>x. id' x = id' a) (getStoredArticles (snd (saveToStorage e a st))))
       = max 1 (length (filter (\<lambda>x. id' x = id' a) (getStoredArticles st)))"
proof (cases "findIndex (\<lambda>x. id' x = id' a) (getStoredArticles st)")
  case None
  then show ?thesis
    using assms by (simp add: saveToStorage_accepted sortByUpdatedAt_def filter_sort findIndex_None)
next
  case (Some i)
  from findIndex_Some [OF Some]
  have i: "i < length (getStoredArticles st)" and P: "id' (getStoredArticles st ! i) = id' a"
    by simp_all
  then have "getStoredArticles st ! i \<in> set (filter (\<lambda>x. id' x = id' a) (getStoredArticles st))"
    by simp
  then have "1 \<le> length (filter (\<lambda>x. id' x = id' a) (getStoredArticles st))"
    by (metis One_nat_def Suc_leI length_pos_if_in_set)
  moreover have "length (filter (\<lambda>x. id' x = id' a) ((getStoredArticles st)[i := a]))
      = length (filter (\<lambda>x. id' x = id' a) (getStoredArticles st))"
    using i P by (intro filter_update_same) simp_all
  ultimately show ?thesis
    using assms Some by (simp add: saveToStorage_accepted sortByUpdatedAt_def filter_sort)
qed

text \<open>
  C4, as amended. After a sequence of saves the stored collection is sorted by
  \<open>updatedAt\<close>, newest first, exactly when some save of the sequence was accepted or the
  initial collection was sorted already; under the \<open>auto\<close> policy a save is accepted
  exactly when its write succeeds. Two saves of the same id under \<open>auto\<close> whose writes
  succeed leave the later record in the collection and as many records with that id as
  the initial collection held, or one when it held none: exactly one record, the later
  one, when the initial collection held at most one.
\<close>

theorem saveAll_sorted_and_single:
  "(sortedByUpdatedAt (getStoredArticles (saveAll ps st))
      \<longleftrightarrow> anyAccepted ps st \<or> sortedByUpdatedAt (getStoredArticles st))
   \<and> (conflictResolution st = ''auto''
      \<longrightarrow> anyAccepted ps st = (\<exists>p \<in> set ps. setItemOk (fst p)))
   \<and> (conflictResolution st = ''auto'' \<and> setItemOk e1 \<and> setItemOk e2 \<and> id' a1 = i \<and> id' a2 = i
      \<longrightarrow> length (filter (\<lambda>x. id' x = i) (getStoredArticles (saveAll [(e1, a1), (e2, a2)] st)))
            = max 1 (length (filter (\<lambda>x. id' x = i) (getStoredArticles st)))
          \<and> a2 \<in> set (getStoredArticles (saveAll [(e1, a1), (e2, a2)] st))
          \<and> (length (filter (\<lambda>x. id' x = i) (getStoredArticles st)) \<le> 1
              \<longrightarrow> filter (\<lambda>x. id' x = i) (getStoredArticles (saveAll [(e1, a1), (e2, a2)] st)) = [a2]))"
proof (intro conjI impI)
  show "sortedByUpdatedAt (getStoredArticles (saveAll ps st))
      \<longleftrightarrow> anyAccepted ps st \<or> sortedByUpdatedAt (getStoredArticles st)"
    by (rule saveAll_sorted_iff)
next
  assume "conflictResolution st = ''auto''"
  then show "anyAccepted ps st = (\<exists>p \<in> set ps. setItemOk (fst p))" by (rule anyAccepted_auto)
next
  assume h: "conflictResolution st = ''auto'' \<and> setItemOk e1 \<and> setItemOk e2 \<and> id' a1 = i \<and> id' a2 = i"
  let ?st1 = "snd (saveToStorage e1 a1 st)"
  have s1: "fst (saveToStorage e1 a1 st)" using h by (simp add: saveToStorage_auto)
  have s2: "fst (saveToStorage e2 a2 ?st1)" using h by (simp add: saveToStorage_auto)
  have "length (filter (\<lambda>x. id' x = i) (getStoredArticles ?st1))
      = max 1 (length (filter (\<lambda>x. id' x = i) (getStoredArticles st)))"
    using saveToStorage_count [OF s1] h by simp
  moreover have "length (filter (\<lambda>x. id' x = i) (getStoredArticles (snd (saveToStorage e2 a2 ?st1))))
      = max 1 (length (filter (\<lambda>x. id' x = i) (getStoredArticles ?st1)))"
    using saveToStorage_count [OF s2] h by simp
  ultimately show "length (filter (\<lambda>x. id' x = i) (getStoredArticles (saveAll [(e1, a1), (e2, a2)] st)))
            = max 1 (length (filter (\<lambda>x. id' x = i) (getStoredArticles st)))"
    by simp
  show "a2 \<in> set (getStoredArticles (saveAll [(e1, a1), (e2, a2)] st))"
    using saveToStorage_member [OF s2] by simp
  assume few: "length (filter (\<lambda>x. id' x = i) (getStoredArticles st)) \<le> 1"
  have one: "filter (\<lambda>x. id' x = i) (getStoredArticles ?st1) = [a1]"
    using saveToStorage_single [OF s1] h few by simp
  have "filter (\<lambda>x. id' x = id' a2) (getStoredArticles (snd (saveToStorage e2 a2 ?st1))) = [a2]"
    using one h by (intro saveToStorage_single [OF s2]) simp
  then show "filter (\<lambda>x. id' x = i) (getStoredArticles (saveAll [(e1, a1), (e2, a2)] st)) = [a2]"
    using h by simp
qed

theorem saveAll_sorted_and_single_witness:
  "\<not> sortedByUpdatedAt (getStoredArticles
        (constructed (Some [sampleArticle ''A'' ''X'' 1, sampleArticle ''B'' ''Y'' 2])))
   \<and> anyAccepted [(declining\<lparr>setItemOk := False\<rparr>, sampleArticle ''C'' ''Z'' 3),
                  (declining, sampleArticle ''D'' ''W'' 0)]
        (constructed (Some [sampleArticle ''A'' ''X'' 1, sampleArticle ''B'' ''Y'' 2]))
   \<and> sortedByUpdatedAt (getStoredArticles
        (saveAll [(declining\<lparr>setItemOk := False\<rparr>, sampleArticle ''C'' ''Z'' 3),
                  (declining, sampleArticle ''D'' ''W'' 0)]
           (constructed (Some [sampleArticle ''A'' ''X'' 1, sampleArticle ''B'' ''Y'' 2]))))
   \<and> map title (getStoredArticles
        (saveAll [(declining\<lparr>setItemOk := False\<rparr>, sampleArticle ''C'' ''Z'' 3),
                  (declining, sampleArticle ''D'' ''W'' 0)]
           (constructed (Some [sampleArticle ''A'' ''X'' 1, sampleArticle ''B'' ''Y'' 2]))))
      = [''Y'', ''X'', ''W'']
   \<and> conflictResolution (constructed (Some [sampleArticle ''A'' ''X'' 1, sampleArticle ''B'' ''Y'' 2]))
      = ''auto''
   \<and> setItemOk declining
   \<and> length (filter (\<lambda>x. id' x = ''A'')
        (getStoredArticles (constructed (Some [sampleArticle ''A'' ''X'' 1, sampleArticle ''B'' ''Y'' 2]))))
      \<le> 1
   \<and> filter (\<lambda>x. id' x = ''A'') (getStoredArticles
        (saveAll [(declining, sampleArticle ''A'' ''First'' 3), (declining, sampleArticle ''A'' ''Second'' 4)]
           (constructed (Some [sampleArticle ''A'' ''X'' 1, sampleArticle ''B'' ''Y'' 2]))))
      = [sampleArticle ''A'' ''Second'' 4]"
proof -
  let ?st = "constructed (Some [sampleArticle ''A'' ''X'' 1, sampleArticle ''B'' ''Y'' 2])"
  let ?ps = "[(declining\<lparr>setItemOk := False\<rparr>, sampleArticle ''C'' ''Z'' 3),
              (declining, sampleArticle ''D'' ''W'' 0)]"
  have unsorted: "\<not> sortedByUpdatedAt (getStoredArticles ?st)"
    by (simp add: constructed_def loadArticles_def getStoredArticles_def sampleArticle_def
        sortedByUpdatedAt_def)
  have policy: "conflictResolution ?st = ''auto''"
    by (simp add: constructed_def loadArticles_def)
  have ok: "setItemOk declining" by (simp add: declining_def)
  have few: "length (filter (\<lambda>x. id' x = ''A'') (getStoredArticles ?st)) \<le> 1"
    by (simp add: constructed_def loadArticles_def getStoredArticles_def sampleArticle_def)
  have ids: "id' (sampleArticle ''A'' ''First'' 3) = ''A''" "id' (sampleArticle ''A'' ''Second'' 4) = ''A''"
    by (simp_all add: sampleArticle_def)
  have some: "\<exists>p \<in> set ?ps. setItemOk (fst p)" by (simp add: declining_def)
  have titles: "map title (getStoredArticles (saveAll ?ps ?st)) = [''Y'', ''X'', ''W'']"
    by (simp add: constructed_def loadArticles_def getStoredArticles_def sampleArticle_def
        declining_def saveToStorage_def Let_def sortByUpdatedAt_def updateStorageUsage_def
        clearAutoSave_def handleError_def showNotification_def)
  note sorted = saveAll_sorted_and_single [of ?ps ?st declining declining
      "sampleArticle ''A'' ''First'' 3" "''A''" "sampleArticle ''A'' ''Second'' 4"]
  have acc: "anyAccepted ?ps ?st" using sorted policy some by blast
  then have srt: "sortedByUpdatedAt (getStoredArticles (saveAll ?ps ?st))" using sorted by blast
  have single: "filter (\<lambda>x. id' x = ''A'') (getStoredArticles
        (saveAll [(declining, sampleArticle ''A'' ''First'' 3), (declining, sampleArticle ''A'' ''Second'' 4)] ?st))
      = [sampleArticle ''A'' ''Second'' 4]"
    using sorted policy ok few ids by blast
  show ?thesis using unsorted acc srt titles policy ok few single by blast
qed

text \<open>
  The claim as stated, for every initial collection and every sequence, fails twice. When
  the initial collection holds two records with the id, a save replaces the first of
  them only, and after two saves of that id under \<open>auto\<close> the collection still holds two
  records with it. And when the initial collection is not sorted and the only save of the
  sequence fails to write, the collection stays as it was, unsorted.
\<close>

theorem saveAll_sorted_and_single_counterexample:
  "conflictResolution (constructed (Some [sampleArticle ''A'' ''X'' 2, sampleArticle ''A'' ''Y'' 1])) = ''auto''
   \<and> map title (filter (\<lambda>x. id' x = ''A'')
        (getStoredArticles
          (saveAll [(declining, sampleArticle ''A'' ''First'' 3), (declining, sampleArticle ''A'' ''Second'' 4)]
             (constructed (Some [sampleArticle ''A'' ''X'' 2, sampleArticle ''A'' ''Y'' 1])))))
      = [''Second'', ''Y'']
   \<and> \<not> sortedByUpdatedAt (getStoredArticles
          (saveAll [(declining\<lparr>setItemOk := False\<rparr>, sampleArticle ''C'' ''Z'' 3)]
             (constructed (Some [sampleArticle ''A'' ''X'' 1, sampleArticle ''B'' ''Y'' 2]))))"
  by (simp add: constructed_def loadArticles_def getStoredArticles_def sampleArticle_def declining_def
      saveToStorage_def sortByUpdatedAt_def updateStorageUsage_def clearAutoSave_def Let_def
      handleError_def showNotification_def sortedByUpdatedAt_def)

section \<open>Saving from the editor\<close>

text \<open>
  C5. When the trimmed title or the trimmed content is empty, \<open>saveArticle\<close> only shows
  the matching warning: the stored collection, the current article and the modified flag
  are unchanged. Hence the stored collection changes only when both are non-empty.
\<close>

theorem saveArticle_validation:
  "(trim (title (gatherArticleData e)) = [] \<or> trim (content (gatherArticleData e)) = []
      \<longrightarrow> saveArticle e st
            = showNotification
                (if trim (title (gatherArticleData e)) = [] then ''Please enter a title for your article''
                 else ''Please write some content for your article'') ''warning'' st
          \<and> storedArticles (saveArticle e st) = storedArticles st
          \<and> currentArticle (saveArticle e st) = currentArticle st
          \<and> isModified (saveArticle e st) = isModified st)
   \<and> (storedArticles (saveArticle e st) \<noteq> storedArticles st
      \<longrightarrow> trim (title (gatherArticleData e)) \<noteq> [] \<and> trim (content (gatherArticleData e)) \<noteq> [])"
  by (auto simp: saveArticle_def Let_def showNotification_def)

theorem saveArticle_validation_witness:
  "(trim (title (gatherArticleData declining)) = [] \<or> trim (content (gatherArticleData declining)) = [])
   \<and> storedArticles (saveArticle declining (constructed None)) = storedArticles (constructed None)
   \<and> isModified (saveArticle declining (constructed None)) = isModified (constructed None)
   \<and> storedArticles (saveArticle drafting (constructed None)) \<noteq> storedArticles (constructed None)
   \<and> trim (title (gatherArticleData drafting)) \<noteq> []
   \<and> trim (content (gatherArticleData drafting)) \<noteq> []"
  using saveArticle_validation [of declining "constructed None"]
    saveArticle_validation [of drafting "constructed None"]
  by (simp add: gatherArticleData_def declining_def drafting_def trim_def isWhiteSpace_def
      constructed_def loadArticles_def saveArticle_def saveToStorage_def Let_def getStoredArticles_def
      updateStorageUsage_def clearAutoSave_def showNotification_def)

section \<open>Restore\<close>

text \<open>
  C6. When the \<open>articles\<close> property of the parsed backup is missing or is not an array,
  \<open>restoreFromBackup\<close> only reports the failure: the stored collection and the loaded
  list are unchanged. A backup whose \<open>articles\<close> property is an array is accepted: once
  confirmed and written, it is the stored collection.
\<close>

theorem restoreFromBackup_shape:
  "(\<not> isArray (articlesField b)
      \<longrightarrow> restoreFromBackup e (Parsed b) st = handleError ''Failed to restore backup'' st
          \<and> storedArticles (restoreFromBackup e (Parsed b) st) = storedArticles st
          \<and> articles (restoreFromBackup e (Parsed b) st) = articles st)
   \<and> (articlesField b = JArray xs \<and> confirmRestore e \<and> setItemOk e
      \<longrightarrow> restoreFromBackup e (Parsed b) st
            = showNotification ''Backup restored successfully'' ''success''
                (loadArticles (st\<lparr>storedArticles := Some xs\<rparr>)))"
  by (auto simp: restoreFromBackup_def handleError_def showNotification_def)

theorem restoreFromBackup_shape_witness:
  "\<not> isArray (articlesField \<lparr>articlesField = JString ''not-an-array'', exportDate = JUndefined, version = JUndefined\<rparr>)
   \<and> storedArticles (restoreFromBackup agreeing
         (Parsed \<lparr>articlesField = JString ''not-an-array'', exportDate = JUndefined, version = JUndefined\<rparr>)
         (constructed (Some [sampleArticle ''A'' ''X'' 5])))
       = Some [sampleArticle ''A'' ''X'' 5]
   \<and> notifications (restoreFromBackup agreeing
         (Parsed \<lparr>articlesField = JString ''not-an-array'', exportDate = JUndefined, version = JUndefined\<rparr>)
         (constructed (Some [sampleArticle ''A'' ''X'' 5])))
       = [(''Failed to restore backup. Please try again.'', ''error'')]
   \<and> confirmRestore agreeing \<and> setItemOk agreeing
   \<and> storedArticles (restoreFromBackup agreeing
         (Parsed \<lparr>articlesField = JArray [sampleArticle ''B'' ''Y'' 7],
                  exportDate = JString ''2024-05-01T00:00:00.000Z'', version = JString ''1.0''\<rparr>)
         (constructed (Some [sampleArticle ''A'' ''X'' 5])))
       = Some [sampleArticle ''B'' ''Y'' 7]"
  using restoreFromBackup_shape [of
      "\<lparr>articlesField = JString ''not-an-array'', exportDate = JUndefined, version = JUndefined\<rparr>"
      agreeing "constructed (Some [sampleArticle ''A'' ''X'' 5])"]
    restoreFromBackup_shape [of
      "\<lparr>articlesField = JArray [sampleArticle ''B'' ''Y'' 7],
        exportDate = JString ''2024-05-01T00:00:00.000Z'', version = JString ''1.0''\<rparr>"
      agreeing "constructed (Some [sampleArticle ''A'' ''X'' 5])" "[sampleArticle ''B'' ''Y'' 7]"]
  by (simp add: agreeing_def declining_def constructed_def loadArticles_def showNotification_def
      handleError_def getStoredArticles_def)

text \<open>
  C10. A confirmed restore of a backup whose \<open>articles\<close> property is an array stores that
  array as it is, in its order; an array that is not sorted by \<open>updatedAt\<close> leaves the
  stored collection unsorted, and the next accepted save sorts it.
\<close>

theorem restoreFromBackup_keeps_order:
  assumes "articlesField b = JArray xs" and "confirmRestore e" and "setItemOk e"
  shows "storedArticles (restoreFromBackup e (Parsed b) st) = Some xs
       \<and> articles (restoreFromBackup e (Parsed b) st) = xs
       \<and> (\<not> sortedByUpdatedAt xs
            \<longrightarrow> \<not> sortedByUpdatedAt (getStoredArticles (restoreFromBackup e (Parsed b) st)))
       \<and> (fst (saveToStorage e' a (restoreFromBackup e (Parsed b) st))
            \<longrightarrow> sortedByUpdatedAt (getStoredArticles
                  (snd (saveToStorage e' a (restoreFromBackup e (Parsed b) st)))))"
proof -
  have r: "restoreFromBackup e (Parsed b) st
             = showNotification ''Backup restored successfully'' ''success''
                 (loadArticles (st\<lparr>storedArticles := Some xs\<rparr>))"
    using assms by (simp add: restoreFromBackup_def)
  have "getStoredArticles (restoreFromBackup e (Parsed b) st) = xs"
    by (simp add: r)
  then show ?thesis
    by (simp add: saveToStorage_sorted) (simp add: r showNotification_def loadArticles_def)
qed

theorem restoreFromBackup_keeps_order_witness:
  "articlesField \<lparr>articlesField = JArray [sampleArticle ''A'' ''X'' 1, sampleArticle ''B'' ''Y'' 2],
                  exportDate = JString ''2024-05-01T00:00:00.000Z'', version = JString ''1.0''\<rparr>
     = JArray [sampleArticle ''A'' ''X'' 1, sampleArticle ''B'' ''Y'' 2]
   \<and> confirmRestore agreeing \<and> setItemOk agreeing
   \<and> \<not> sortedByUpdatedAt [sampleArticle ''A'' ''X'' 1, sampleArticle ''B'' ''Y'' 2]
   \<and> storedArticles (restoreFromBackup agreeing
        (Parsed \<lparr>articlesField = JArray [sampleArticle ''A'' ''X'' 1, sampleArticle ''B'' ''Y'' 2],
                 exportDate = JString ''2024-05-01T00:00:00.000Z'', version = JString ''1.0''\<rparr>)
        (constructed None))
      = Some [sampleArticle ''A'' ''X'' 1, sampleArticle ''B'' ''Y'' 2]
   \<and> \<not> sortedByUpdatedAt (getStoredArticles (restoreFromBackup agreeing
        (Parsed \<lparr>articlesField = JArray [sampleArticle ''A'' ''X'' 1, sampleArticle ''B'' ''Y'' 2],
                 exportDate = JString ''2024-05-01T00:00:00.000Z'', version = JString ''1.0''\<rparr>)
        (constructed None)))
   \<and> fst (saveToStorage agreeing (sampleArticle ''C'' ''Z'' 3) (restoreFromBackup agreeing
        (Parsed \<lparr>articlesField = JArray [sampleArticle ''A'' ''X'' 1, sampleArticle ''B'' ''Y'' 2],
                 exportDate = JString ''2024-05-01T00:00:00.000Z'', version = JString ''1.0''\<rparr>)
        (constructed None)))
   \<and> sortedByUpdatedAt (getStoredArticles (snd (saveToStorage agreeing (sampleArticle ''C'' ''Z'' 3)
        (restoreFromBackup agreeing
        (Parsed \<lparr>articlesField = JArray [sampleArticle ''A'' ''X'' 1, sampleArticle ''B'' ''Y'' 2],
                 exportDate = JString ''2024-05-01T00:00:00.000Z'', version = JString ''1.0''\<rparr>)
        (constructed None)))))"
  using restoreFromBackup_keeps_order [of
      "\<lparr>articlesField = JArray [sampleArticle ''A'' ''X'' 1, sampleArticle ''B'' ''Y'' 2],
        exportDate = JString ''2024-05-01T00:00:00.000Z'', version = JString ''1.0''\<rparr>"
      "[sampleArticle ''A'' ''X'' 1, sampleArticle ''B'' ''Y'' 2]" agreeing
      "constructed None" agreeing "sampleArticle ''C'' ''Z'' 3"]
  by (simp add: agreeing_def declining_def constructed_def loadArticles_def showNotification_def
      handleError_def getStoredArticles_def sortedByUpdatedAt_def sampleArticle_def
      restoreFromBackup_def saveToStorage_def Let_def)

section \<open>Markdown export: the title line\<close>

lemma linesFrom_first:
  "NL \<notin> set l \<Longrightarrow> linesFrom seg (l @ NL # t) = (seg @ l) # linesFrom [] t"
  by (induction l arbitrary: seg) auto

lemma markdownHeader_parts:
  "markdownHeader a
     = ''# '' @ title a @ [NL, NL]
       @ (if author a \<noteq> [] then ''**Author:** '' @ author a @ [NL] else [])
       @ (if publicationDate a \<noteq> [] then ''**Date:** '' @ publicationDate a @ [NL] else [])
       @ (if category a \<noteq> [] then ''**Category:** '' @ category a @ [NL] else [])
       @ (if summary a \<noteq> [] then [NL] @ ''**Summary:** '' @ summary a @ [NL] else [])
       @ [NL] @ ''---'' @ [NL, NL]"
  by (simp add: markdownHeader_def Let_def)

lemma generateMarkdown_starts:
  "\<exists>rest. generateMarkdown a = ''# '' @ title a @ NL # NL # rest"
  by (simp add: generateMarkdown_def markdownHeader_parts Let_def)

lemma generateMarkdown_first_line:
  assumes "NL \<notin> set (title a)"
  shows "\<exists>ls. lines (generateMarkdown a) = (''# '' @ title a) # [] # ls"
proof -
  obtain rest where "generateMarkdown a = (''# '' @ title a) @ NL # NL # rest"
    using generateMarkdown_starts [of a] by auto
  then show ?thesis using assms by (simp add: lines_def linesFrom_first)
qed

text \<open>
  C2, as amended. For every record with the title \<open>Safety Drill\<close> the first line of the
  Markdown export is the heading \<open># Safety Drill\<close>, followed by an empty line. Directly
  after it comes the author line exactly when the author is not empty, then the date line
  exactly when the publication date is not empty; what follows starts with neither.
\<close>

theorem generateMarkdown_title_heading:
  assumes "title a = ''Safety Drill''"
  shows "(\<exists>ls. lines (generateMarkdown a) = ''# Safety Drill'' # [] # ls)
       \<and> ''# Safety Drill'' \<in> set (lines (generateMarkdown a))
       \<and> (\<exists>rest. generateMarkdown a
                   = ''# Safety Drill'' @ [NL, NL]
                     @ (if author a \<noteq> [] then ''**Author:** '' @ author a @ [NL] else [])
                     @ (if publicationDate a \<noteq> [] then ''**Date:** '' @ publicationDate a @ [NL] else [])
                     @ rest
                 \<and> stripPrefix ''**Author:** '' rest = None
                 \<and> stripPrefix ''**Date:** '' rest = None)"
proof -
  have nl: "NL \<notin> set (title a)" using assms by simp
  from generateMarkdown_first_line [OF nl] obtain ls
    where first: "lines (generateMarkdown a) = ''# Safety Drill'' # [] # ls"
    using assms by auto
  then have mem: "''# Safety Drill'' \<in> set (lines (generateMarkdown a))" by simp
  let ?rest = "(if category a \<noteq> [] then ''**Category:** '' @ category a @ [NL] else [])
       @ (if summary a \<noteq> [] then [NL] @ ''**Summary:** '' @ summary a @ [NL] else [])
       @ [NL] @ ''---'' @ [NL, NL]
       @ (if htmlContent a \<noteq> [] then htmlToMarkdown (htmlContent a) else content a)"
  have "generateMarkdown a
          = ''# Safety Drill'' @ [NL, NL]
            @ (if author a \<noteq> [] then ''**Author:** '' @ author a @ [NL] else [])
            @ (if publicationDate a \<noteq> [] then ''**Date:** '' @ publicationDate a @ [NL] else [])
            @ ?rest"
    using assms by (simp add: generateMarkdown_def markdownHeader_parts Let_def)
  moreover have "stripPrefix ''**Author:** '' ?rest = None" by simp
  moreover have "stripPrefix ''**Date:** '' ?rest = None" by simp
  ultimately show ?thesis using first mem by blast
qed

theorem generateMarkdown_title_heading_witness:
  "title (sampleArticle ''A'' ''Safety Drill'' 5) = ''Safety Drill''
   \<and> (\<exists>ls. lines (generateMarkdown (sampleArticle ''A'' ''Safety Drill'' 5))
             = ''# Safety Drill'' # [] # ls)"
  using generateMarkdown_title_heading [of "sampleArticle ''A'' ''Safety Drill'' 5"]
  by (simp add: sampleArticle_def)

text \<open>
  The claim as stated says that no line \<open># Safety Drill\<close> occurs in the export; it is the
  first line.
\<close>

theorem generateMarkdown_heading_counterexample:
  "''# Safety Drill'' \<in> set (lines (generateMarkdown (sampleArticle ''A'' ''Safety Drill'' 5)))"
proof -
  have "NL \<notin> set (title (sampleArticle ''A'' ''Safety Drill'' 5))"
    by (simp add: sampleArticle_def)
  from generateMarkdown_first_line [OF this] obtain ls
    where "lines (generateMarkdown (sampleArticle ''A'' ''Safety Drill'' 5))
             = ''# Safety Drill'' # [] # ls"
    by (auto simp: sampleArticle_def)
  then show ?thesis by simp
qed

text \<open>
  C9, as amended. For every record whose title contains no line feed, the first line of
  the Markdown export without its marker \<open>#\<close> and the space after it is the title.
\<close>

theorem extractTitle_generateMarkdown:
  assumes "NL \<notin> set (title a)"
  shows "extractTitle (generateMarkdown a) = Some (title a)"
  using generateMarkdown_first_line [OF assms] by (auto simp: extractTitle_def)

theorem extractTitle_generateMarkdown_witness:
  "NL \<notin> set (title (sampleArticle ''A'' ''Safety Drill'' 5))
   \<and> extractTitle (generateMarkdown (sampleArticle ''A'' ''Safety Drill'' 5)) = Some ''Safety Drill''"
  using extractTitle_generateMarkdown [of "sampleArticle ''A'' ''Safety Drill'' 5"]
  by (simp add: sampleArticle_def)

text \<open>
  A title of two lines is not read back: the first line of the export holds its first
  line only.
\<close>

theorem extractTitle_two_line_title_counterexample:
  "extractTitle (generateMarkdown (sampleArticle ''A'' [CHR ''a'', NL, CHR ''b''] 5)) = Some ''a''
   \<and> title (sampleArticle ''A'' [CHR ''a'', NL, CHR ''b''] 5) \<noteq> ''a''"
proof -
  obtain rest where
    "generateMarkdown (sampleArticle ''A'' [CHR ''a'', NL, CHR ''b''] 5)
       = ''# a'' @ NL # (''b'' @ NL # NL # rest)"
    using generateMarkdown_starts [of "sampleArticle ''A'' [CHR ''a'', NL, CHR ''b''] 5"]
    by (auto simp: sampleArticle_def)
  then have "\<exists>ls. lines (generateMarkdown (sampleArticle ''A'' [CHR ''a'', NL, CHR ''b''] 5)) = ''# a'' # ls"
    by (simp add: lines_def)
  then show ?thesis by (auto simp: extractTitle_def sampleArticle_def)
qed

section \<open>Duplicating an article\<close>

lemma digitsOf_digits: "\<forall>c \<in> set (digitsOf n). isDigit c"
proof (induction n rule: digitsOf.induct)
  case (1 n)
  show ?case
  proof (cases "n < 10")
    case True
    then show ?thesis by (subst digitsOf.simps) (simp add: isDigit_def)
  next
    case False
    have "n mod 10 < 10" by simp
    then have "isDigit (char_of (48 + n mod 10))" by (simp add: isDigit_def)
    with False 1 show ?thesis by (subst digitsOf.simps) simp
  qed
qed

lemma digitsOf_not_Nil: "digitsOf n \<noteq> []"
  by (subst digitsOf.simps) simp

lemma valueOf_append: "valueOf acc (xs @ ys) = valueOf (valueOf acc xs) ys"
  by (induction xs arbitrary: acc) auto

lemma valueOf_digitsOf: "valueOf 0 (digitsOf n) = n"
proof (induction n rule: digitsOf.induct)
  case (1 n)
  show ?case
  proof (cases "n < 10")
    case True
    then show ?thesis by (subst digitsOf.simps) simp
  next
    case False
    have "n mod 10 < 10" by simp
    then have "(48 + n mod 10) mod 256 = 48 + n mod 10" by simp
    with False 1 show ?thesis by (subst digitsOf.simps) (simp add: valueOf_append)
  qed
qed

lemma digitsOf_inj: "digitsOf n = digitsOf m \<Longrightarrow> n = m"
  by (metis valueOf_digitsOf)

lemma numberToString_inj: "numberToString i = numberToString j \<Longrightarrow> i = j"
proof -
  assume eq: "numberToString i = numberToString j"
  have nd: "\<not> isDigit (CHR ''-'')" by (simp add: isDigit_def)
  have hd_digit: "\<And>n. isDigit (hd (digitsOf n))"
    using digitsOf_digits digitsOf_not_Nil by (metis hd_in_set)
  show ?thesis
  proof (cases "i < 0"; cases "j < 0")
    assume "i < 0" "j < 0"
    with eq have "nat (- i) = nat (- j)" by (simp add: numberToString_def digitsOf_inj)
    with \<open>i < 0\<close> \<open>j < 0\<close> show ?thesis by simp
  next
    assume "i < 0" "\<not> j < 0"
    with eq have "CHR ''-'' # digitsOf (nat (- i)) = digitsOf (nat j)" by (simp add: numberToString_def)
    then have "hd (digitsOf (nat j)) = CHR ''-''" by (metis list.sel(1))
    with hd_digit [of "nat j"] nd show ?thesis by simp
  next
    assume "\<not> i < 0" "j < 0"
    with eq have "digitsOf (nat i) = CHR ''-'' # digitsOf (nat (- j))" by (simp add: numberToString_def)
    then have "hd (digitsOf (nat i)) = CHR ''-''" by (metis list.sel(1))
    with hd_digit [of "nat i"] nd show ?thesis by simp
  next
    assume "\<not> i < 0" "\<not> j < 0"
    with eq have "nat i = nat j" by (simp add: numberToString_def digitsOf_inj)
    with \<open>\<not> i < 0\<close> \<open>\<not> j < 0\<close> show ?thesis by simp
  qed
qed

lemma numberToString_no_underscore: "CHR ''_'' \<notin> set (numberToString i)"
proof -
  have "\<not> isDigit (CHR ''_'')" by (simp add: isDigit_def)
  then have "\<And>n. CHR ''_'' \<notin> set (digitsOf n)" using digitsOf_digits by blast
  then show ?thesis by (simp add: numberToString_def)
qed

lemma append_sep_eq:
  "c \<notin> set xs \<Longrightarrow> c \<notin> set ys \<Longrightarrow> xs @ c # u = ys @ c # v \<Longrightarrow> xs = ys \<and> u = v"
proof (induction xs arbitrary: ys)
  case Nil
  then show ?case by (cases ys) auto
next
  case (Cons x xs)
  then show ?case by (cases ys) auto
qed

lemma generateArticleId_inj:
  "generateArticleId e1 = generateArticleId e2 \<longleftrightarrow>
     clockId e1 = clockId e2 \<and> randomSuffix e1 = randomSuffix e2"
proof
  assume "generateArticleId e1 = generateArticleId e2"
  then have "numberToString (clockId e1) @ CHR ''_'' # randomSuffix e1
           = numberToString (clockId e2) @ CHR ''_'' # randomSuffix e2"
    by (simp add: generateArticleId_def)
  from append_sep_eq [OF numberToString_no_underscore numberToString_no_underscore this]
  show "clockId e1 = clockId e2 \<and> randomSuffix e1 = randomSuffix e2"
    by (simp add: numberToString_inj)
next
  assume "clockId e1 = clockId e2 \<and> randomSuffix e1 = randomSuffix e2"
  then show "generateArticleId e1 = generateArticleId e2" by (simp add: generateArticleId_def)
qed

lemma stored_loadArticleData [simp]:
  "getStoredArticles (loadArticleData e a st) = getStoredArticles st"
  by (simp add: loadArticleData_def getStoredArticles_def showNotification_def)

lemma generateArticleId_prefix: "prefix ''article_'' (generateArticleId e)"
  by (simp add: generateArticleId_def)

text \<open>
  C7, as amended. Duplicating the record \<open>r\<close> that \<open>this.articles\<close> holds for an id
  builds a record whose title is \<open>Copy of\<close> followed by the title of \<open>r\<close>, whose id is the
  newly generated one, whose \<open>createdAt\<close> and \<open>updatedAt\<close> are the two clock readings
  taken one after the other while the copy is built, and whose other fields are those
  of \<open>r\<close>. The id of the copy differs from the id of \<open>r\<close> exactly when the id of \<open>r\<close> is
  not the one generated now: so whenever the id of \<open>r\<close> does not start with \<open>article_\<close>,
  and whenever it was generated at another clock reading or with another random suffix.
  The two timestamps are equal exactly when the two clock readings are. When the save
  is accepted the copy is in the stored collection.
\<close>

theorem duplicateArticle_copy:
  assumes "find (\<lambda>a. id' a = articleId) (articles st) = Some r"
  shows "title (duplicateOf e r) = ''Copy of '' @ title r
       \<and> id' (duplicateOf e r) = generateArticleId e
       \<and> (id' (duplicateOf e r) \<noteq> id' r \<longleftrightarrow> id' r \<noteq> generateArticleId e)
       \<and> (\<not> prefix ''article_'' (id' r) \<longrightarrow> id' (duplicateOf e r) \<noteq> id' r)
       \<and> (\<forall>e0. id' r = generateArticleId e0 \<and> (clockId e0 \<noteq> clockId e \<or> randomSuffix e0 \<noteq> randomSuffix e)
             \<longrightarrow> id' (duplicateOf e r) \<noteq> id' r)
       \<and> createdAt (duplicateOf e r) = clockCreated e
       \<and> updatedAt (duplicateOf e r) = clockUpdated e
       \<and> (createdAt (duplicateOf e r) = updatedAt (duplicateOf e r) \<longleftrightarrow> clockCreated e = clockUpdated e)
       \<and> author (duplicateOf e r) = author r
       \<and> category (duplicateOf e r) = category r
       \<and> summary (duplicateOf e r) = summary r
       \<and> publicationDate (duplicateOf e r) = publicationDate r
       \<and> content (duplicateOf e r) = content r
       \<and> htmlContent (duplicateOf e r) = htmlContent r
       \<and> wordCount (duplicateOf e r) = wordCount r
       \<and> (fst (saveToStorage e (duplicateOf e r) st)
            \<longrightarrow> duplicateOf e r \<in> set (getStoredArticles (duplicateArticle e articleId st)))"
proof -
  have exact: "id' (duplicateOf e r) \<noteq> id' r \<longleftrightarrow> id' r \<noteq> generateArticleId e"
    by (auto simp: duplicateOf_def)
  have foreign: "\<not> prefix ''article_'' (id' r) \<longrightarrow> id' (duplicateOf e r) \<noteq> id' r"
    using generateArticleId_prefix [of e] by (auto simp: duplicateOf_def)
  have ident: "\<forall>e0. id' r = generateArticleId e0 \<and> (clockId e0 \<noteq> clockId e \<or> randomSuffix e0 \<noteq> randomSuffix e)
             \<longrightarrow> id' (duplicateOf e r) \<noteq> id' r"
    by (auto simp: duplicateOf_def generateArticleId_inj)
  have stored: "fst (saveToStorage e (duplicateOf e r) st)
            \<longrightarrow> duplicateOf e r \<in> set (getStoredArticles (duplicateArticle e articleId st))"
  proof
    assume ok: "fst (saveToStorage e (duplicateOf e r) st)"
    then have "duplicateArticle e articleId st
        = showNotification ''Article duplicated successfully'' ''success''
            (loadArticleData e (duplicateOf e r) (snd (saveToStorage e (duplicateOf e r) st)))"
      using assms by (simp add: duplicateArticle_def Let_def split_beta)
    then show "duplicateOf e r \<in> set (getStoredArticles (duplicateArticle e articleId st))"
      using saveToStorage_member [OF ok] by simp
  qed
  have rest: "title (duplicateOf e r) = ''Copy of '' @ title r
       \<and> id' (duplicateOf e r) = generateArticleId e
       \<and> createdAt (duplicateOf e r) = clockCreated e
       \<and> updatedAt (duplicateOf e r) = clockUpdated e
       \<and> author (duplicateOf e r) = author r
       \<and> category (duplicateOf e r) = category r
       \<and> summary (duplicateOf e r) = summary r
       \<and> publicationDate (duplicateOf e r) = publicationDate r
       \<and> content (duplicateOf e r) = content r
       \<and> htmlContent (duplicateOf e r) = htmlContent r
       \<and> wordCount (duplicateOf e r) = wordCount r"
    by (simp add: duplicateOf_def)
  show ?thesis using exact foreign ident stored rest by simp
qed

theorem duplicateArticle_copy_witness:
  "find (\<lambda>a. id' a = ''A'') (articles (constructed (Some [sampleArticle ''A'' ''X'' 5])))
     = Some (sampleArticle ''A'' ''X'' 5)
   \<and> id' (sampleArticle ''A'' ''X'' 5) \<noteq> generateArticleId declining
   \<and> \<not> prefix ''article_'' (id' (sampleArticle ''A'' ''X'' 5))
   \<and> fst (saveToStorage declining (duplicateOf declining (sampleArticle ''A'' ''X'' 5))
            (constructed (Some [sampleArticle ''A'' ''X'' 5])))
   \<and> title (duplicateOf declining (sampleArticle ''A'' ''X'' 5)) = ''Copy of X''
   \<and> id' (duplicateOf declining (sampleArticle ''A'' ''X'' 5)) = ''article_1000_k3j9x2m1q''
   \<and> id' (duplicateOf declining (sampleArticle ''A'' ''X'' 5)) \<noteq> id' (sampleArticle ''A'' ''X'' 5)
   \<and> id' (sampleArticle ''article_5_k3j9x2m1q'' ''X'' 5) = generateArticleId (declining\<lparr>clockId := 5\<rparr>)
   \<and> clockId (declining\<lparr>clockId := 5\<rparr>) \<noteq> clockId declining
   \<and> id' (duplicateOf declining (sampleArticle ''article_5_k3j9x2m1q'' ''X'' 5))
       \<noteq> id' (sampleArticle ''article_5_k3j9x2m1q'' ''X'' 5)
   \<and> duplicateOf declining (sampleArticle ''A'' ''X'' 5)
       \<in> set (getStoredArticles (duplicateArticle declining ''A''
                 (constructed (Some [sampleArticle ''A'' ''X'' 5]))))"
proof -
  let ?r = "sampleArticle ''A'' ''X'' 5"
  let ?g = "sampleArticle ''article_5_k3j9x2m1q'' ''X'' 5"
  let ?st = "constructed (Some [?r])"
  let ?sg = "constructed (Some [?g])"
  have id5: "generateArticleId (declining\<lparr>clockId := 5\<rparr>) = ''article_5_k3j9x2m1q''"
    by code_simp
  have id1000: "generateArticleId declining = ''article_1000_k3j9x2m1q''"
    by code_simp
  have found: "find (\<lambda>a. id' a = ''A'') (articles ?st) = Some ?r"
    by (simp add: constructed_def loadArticles_def getStoredArticles_def sampleArticle_def)
  have foundg: "find (\<lambda>a. id' a = ''article_5_k3j9x2m1q'') (articles ?sg) = Some ?g"
    by (simp add: constructed_def loadArticles_def getStoredArticles_def sampleArticle_def)
  have other: "id' ?r \<noteq> generateArticleId declining"
    by (simp add: id1000) (simp add: sampleArticle_def)
  have plain: "\<not> prefix ''article_'' (id' ?r)"
    by (simp add: sampleArticle_def)
  have gen: "id' ?g = generateArticleId (declining\<lparr>clockId := 5\<rparr>)"
    by (simp add: id5) (simp add: sampleArticle_def)
  have clk: "clockId (declining\<lparr>clockId := 5\<rparr>) \<noteq> clockId declining"
    by (simp add: declining_def)
  have ok: "fst (saveToStorage declining (duplicateOf declining ?r) ?st)"
    by (rule saveToStorage_auto) (simp_all add: constructed_def loadArticles_def declining_def)
  note copy = duplicateArticle_copy [OF found, of declining]
  note copyg = duplicateArticle_copy [OF foundg, of declining]
  have t: "title (duplicateOf declining ?r) = ''Copy of X''"
    using copy by (simp add: sampleArticle_def)
  have i: "id' (duplicateOf declining ?r) = ''article_1000_k3j9x2m1q''"
    using copy id1000 by simp
  have ne: "id' (duplicateOf declining ?r) \<noteq> id' ?r"
    using copy other by blast
  have neg: "id' (duplicateOf declining ?g) \<noteq> id' ?g"
    using copyg gen clk by blast
  have mem: "duplicateOf declining ?r
       \<in> set (getStoredArticles (duplicateArticle declining ''A'' ?st))"
    using copy ok by blast
  show ?thesis using found other plain ok t i ne gen clk neg mem by blast
qed

text \<open>
  The claim as stated gives both timestamps one value, the time of duplication, and the
  copy an id different from the original's. The timestamps are read separately: when the
  clock ticks between the two reads, the copy is created at 1000 and updated at 1001.
  And the id is generated from the clock and a random suffix without a look at the
  collection: when the original carries the very id generated now, the copy has the same
  id and replaces the original in the stored collection.
\<close>

theorem duplicateArticle_copy_counterexample:
  "map (\<lambda>a. (title a, createdAt a, updatedAt a))
     (getStoredArticles (duplicateArticle declining ''A'' (constructed (Some [sampleArticle ''A'' ''X'' 5]))))
   = [(''Copy of X'', 1000, 1001), (''X'', 5, 5)]
   \<and> id' (duplicateOf declining (sampleArticle ''article_1000_k3j9x2m1q'' ''X'' 5))
      = id' (sampleArticle ''article_1000_k3j9x2m1q'' ''X'' 5)
   \<and> map (\<lambda>a. (id' a, title a))
       (getStoredArticles (duplicateArticle declining ''article_1000_k3j9x2m1q''
          (constructed (Some [sampleArticle ''article_1000_k3j9x2m1q'' ''X'' 5]))))
      = [(''article_1000_k3j9x2m1q'', ''Copy of X'')]"
proof -
  have id1000: "generateArticleId declining = ''article_1000_k3j9x2m1q''"
    by code_simp
  have tick: "map (\<lambda>a. (title a, createdAt a, updatedAt a))
     (getStoredArticles (duplicateArticle declining ''A'' (constructed (Some [sampleArticle ''A'' ''X'' 5]))))
   = [(''Copy of X'', 1000, 1001), (''X'', 5, 5)]"
    by (simp add: constructed_def loadArticles_def getStoredArticles_def sampleArticle_def
        saveToStorage_def Let_def duplicateOf_def id1000 duplicateArticle_def
        sortByUpdatedAt_def updateStorageUsage_def clearAutoSave_def loadArticleData_def
        showNotification_def)
      (simp add: declining_def)
  have same: "id' (duplicateOf declining (sampleArticle ''article_1000_k3j9x2m1q'' ''X'' 5))
      = id' (sampleArticle ''article_1000_k3j9x2m1q'' ''X'' 5)"
    by (simp add: duplicateOf_def id1000 sampleArticle_def)
  have clash: "map (\<lambda>a. (id' a, title a))
       (getStoredArticles (duplicateArticle declining ''article_1000_k3j9x2m1q''
          (constructed (Some [sampleArticle ''article_1000_k3j9x2m1q'' ''X'' 5]))))
      = [(''article_1000_k3j9x2m1q'', ''Copy of X'')]"
    by (simp add: constructed_def loadArticles_def getStoredArticles_def sampleArticle_def
        saveToStorage_def Let_def duplicateOf_def id1000 duplicateArticle_def
        sortByUpdatedAt_def updateStorageUsage_def clearAutoSave_def loadArticleData_def
        showNotification_def)
      (simp add: declining_def)
  from tick same clash show ?thesis by blast
qed

section \<open>Sanitized HTML: cleaning twice\<close>

subsection \<open>Substitutions in general\<close>

lemma stripPrefix_Some: "stripPrefix L s = Some rest \<longleftrightarrow> s = L @ rest"
  by (induction L s rule: stripPrefix.induct) auto

lemma stripPrefix_None: "stripPrefix L s = None \<longleftrightarrow> \<not> prefix L s"
  by (induction L s rule: stripPrefix.induct) auto

lemma containsStr_sublist: "containsStr P s \<longleftrightarrow> sublist P s"
  by (induction s) (auto simp: stripPrefix_None sublist_Cons_right)

lemma literal_Some: "literal L s = Some (g, rest) \<longleftrightarrow> g = [] \<and> s = L @ rest"
  by (auto simp: literal_def stripPrefix_Some)

lemma literal_None: "literal L s = None \<longleftrightarrow> \<not> prefix L s"
  by (simp add: literal_def stripPrefix_None)

lemma replaceAll_literal_Nil: "L \<noteq> [] \<Longrightarrow> replaceAll (literal L) rep [] = []"
  by (simp add: literal_def split: option.splits) (cases L; simp)

lemma replaceAll_literal_match:
  "L \<noteq> [] \<Longrightarrow> replaceAll (literal L) rep (L @ rest) = rep [] @ replaceAll (literal L) rep rest"
proof -
  assume "L \<noteq> []"
  then obtain c cs where s: "L @ rest = c # cs" and len: "length rest \<le> length cs"
    by (cases L) auto
  have "literal L (c # cs) = Some ([], rest)" using s by (simp add: literal_Some)
  then show ?thesis using s len by simp
qed

lemma replaceAll_literal_nomatch:
  "\<not> prefix L (c # cs) \<Longrightarrow> replaceAll (literal L) rep (c # cs) = c # replaceAll (literal L) rep cs"
  by (simp add: literal_None [symmetric])

text \<open>a matcher that never matches on the suffixes of a text leaves it alone\<close>

lemma replaceAll_no_match:
  "(\<And>t. suffix t s \<Longrightarrow> m t = None) \<Longrightarrow> replaceAll m rep s = s"
proof (induction s)
  case Nil
  then show ?case by simp
next
  case (Cons c cs)
  have "m (c # cs) = None" using Cons.prems by simp
  moreover have "replaceAll m rep cs = cs"
    using Cons.prems by (intro Cons.IH) (simp add: suffix_Cons)
  ultimately show ?case by simp
qed

lemma replaceAll_cong_suffix:
  assumes "\<And>t. suffix t s \<Longrightarrow> m t = m' t"
    and "\<And>t g rest. m t = Some (g, rest) \<Longrightarrow> suffix rest t"
  shows "replaceAll m rep s = replaceAll m' rep s"
  using assms(1)
proof (induction s rule: length_induct)
  case (1 s)
  show ?case
  proof (cases s)
    case Nil
    with 1 show ?thesis by simp
  next
    case (Cons c cs)
    have eq: "m (c # cs) = m' (c # cs)" using 1(2) Cons by simp
    have tail: "replaceAll m rep cs = replaceAll m' rep cs"
      using 1 Cons by (simp add: suffix_Cons)
    show ?thesis
    proof (cases "m (c # cs)")
      case None
      with eq tail Cons show ?thesis by simp
    next
      case (Some a)
      obtain g rest where a: "a = (g, rest)" by (cases a)
      show ?thesis
      proof (cases "length rest \<le> length cs")
        case True
        have suf: "suffix rest s" using assms(2) Some a Cons by simp
        have "replaceAll m rep rest = replaceAll m' rep rest"
          using 1 True Cons suf by (auto intro: suffix_order.trans)
        with Some a eq Cons True show ?thesis by simp
      next
        case False
        with Some a eq Cons tail show ?thesis by simp
      qed
    qed
  qed
qed

declare replaceAll.simps [simp del]

subsection \<open>Replacing a fixed text\<close>

text \<open>
  Replacing every occurrence of \<open>L\<close> by \<open>r\<close> leaves no occurrence of \<open>L\<close>, and creates
  no occurrence of another text \<open>P\<close>, when the replacement and the texts do not overlap
  in the ways the side conditions list; for fixed texts the side conditions are checked
  by computation.
\<close>

lemma prefix_append_cases: "prefix T (r @ X) \<Longrightarrow> prefix T r \<or> prefix r T"
  by (auto simp: prefix_append)

lemma literal_prefix:
  assumes "L \<noteq> []"
    and cq: "\<forall>T \<in> set (suffixes P). T \<noteq> [] \<longrightarrow> (prefix T r \<or> prefix r T) \<longrightarrow> prefix T L"
    and "suffix T P"
    and "prefix T (replaceAll (literal L) (\<lambda>_. r) s)"
  shows "prefix T s"
  using assms(3,4)
proof (induction T arbitrary: s)
  case Nil
  then show ?case by simp
next
  case (Cons t T')
  have suf': "suffix T' P" using Cons.prems(1) by (rule suffix_ConsD)
  show ?case
  proof (cases s)
    case Nil
    with Cons.prems(2) assms(1) show ?thesis by (simp add: replaceAll_literal_Nil)
  next
    case s: (Cons c cs)
    show ?thesis
    proof (cases "prefix L (c # cs)")
      case True
      then obtain rest where rest: "c # cs = L @ rest" by (auto simp: prefix_def)
      then have "replaceAll (literal L) (\<lambda>_. r) s = r @ replaceAll (literal L) (\<lambda>_. r) rest"
        using s assms(1) by (simp add: replaceAll_literal_match)
      with Cons.prems(2) have "prefix (t # T') r \<or> prefix r (t # T')"
        by (simp add: prefix_append_cases)
      with cq Cons.prems(1) have "prefix (t # T') L" by auto
      with rest s show ?thesis by (metis prefix_prefix)
    next
      case False
      then have "replaceAll (literal L) (\<lambda>_. r) s = c # replaceAll (literal L) (\<lambda>_. r) cs"
        using s by (simp add: replaceAll_literal_nomatch)
      with Cons.prems(2) have "t = c" and "prefix T' (replaceAll (literal L) (\<lambda>_. r) cs)"
        by simp_all
      with Cons.IH [OF suf'] s show ?thesis by simp
    qed
  qed
qed

lemma literal_keeps_free:
  assumes "L \<noteq> []"
    and c1: "\<not> sublist P r"
    and cq: "\<forall>T \<in> set (suffixes P). T \<noteq> [] \<longrightarrow> (prefix T r \<or> prefix r T) \<longrightarrow> prefix T L"
    and c3: "\<forall>D \<in> set (suffixes r). D \<noteq> [] \<and> D \<noteq> r \<and> prefix D P \<longrightarrow> suffix D L"
    and "sublist P (replaceAll (literal L) (\<lambda>_. r) s)"
  shows "sublist P s"
  using assms(5)
proof (induction s rule: length_induct)
  case (1 s)
  note IH = 1(1)
  let ?R = "replaceAll (literal L) (\<lambda>_. r)"
  show ?case
  proof (cases s)
    case Nil
    with 1(2) assms(1) show ?thesis by (simp add: replaceAll_literal_Nil)
  next
    case s: (Cons c cs)
    show ?thesis
    proof (cases "prefix L (c # cs)")
      case False
      then have R: "?R s = c # ?R cs" using s by (simp add: replaceAll_literal_nomatch)
      with 1(2) have "prefix P (?R s) \<or> sublist P (?R cs)" by (simp add: sublist_Cons_right)
      then show ?thesis
      proof
        assume "prefix P (?R s)"
        from literal_prefix [OF assms(1) cq suffix_order.refl this] show ?thesis
          by (rule prefix_imp_sublist)
      next
        assume "sublist P (?R cs)"
        with IH s have "sublist P cs" by simp
        with s show ?thesis by (simp add: sublist_Cons_right)
      qed
    next
      case True
      then obtain rest where rest: "s = L @ rest" using s by (auto simp: prefix_def)
      then have R: "?R s = r @ ?R rest" using assms(1) by (simp add: replaceAll_literal_match)
      have shorter: "length rest < length s" using rest assms(1) by simp
      from 1(2) R have "sublist P (?R rest)
          \<or> (\<exists>P1 P2. P = P1 @ P2 \<and> suffix P1 r \<and> prefix P2 (?R rest))"
        using c1 by (simp add: sublist_append)
      then show ?thesis
      proof
        assume "sublist P (?R rest)"
        with IH shorter have "sublist P rest" by simp
        with rest show ?thesis by (simp add: sublist_append)
      next
        assume "\<exists>P1 P2. P = P1 @ P2 \<and> suffix P1 r \<and> prefix P2 (?R rest)"
        then obtain P1 P2 where P: "P = P1 @ P2" and P1: "suffix P1 r" and P2: "prefix P2 (?R rest)"
          by blast
        have "suffix P2 P" using P by (simp add: suffix_def)
        from literal_prefix [OF assms(1) cq this P2] have P2': "prefix P2 rest" .
        show ?thesis
        proof (cases "P1 = [] \<or> P1 = r")
          case True
          then have "prefix P (?R s) \<or> prefix P rest"
            using P P2 P2' R by auto
          then show ?thesis
          proof
            assume "prefix P (?R s)"
            from literal_prefix [OF assms(1) cq suffix_order.refl this] show ?thesis
              by (rule prefix_imp_sublist)
          next
            assume "prefix P rest"
            then have "sublist P rest" by (rule prefix_imp_sublist)
            with rest show ?thesis by (simp add: sublist_append)
          qed
        next
          case False
          then have "suffix P1 L" using c3 P1 P by auto
          then obtain L0 where "L = L0 @ P1" by (auto simp: suffix_def)
          moreover obtain rest' where "rest = P2 @ rest'" using P2' by (auto simp: prefix_def)
          ultimately have "s = L0 @ P @ rest'" using rest P by simp
          then show ?thesis by (auto simp: sublist_def)
        qed
      qed
    qed
  qed
qed

lemma literal_makes_free:
  assumes "L \<noteq> []"
    and c1: "\<not> sublist L r"
    and cq: "\<forall>T \<in> set (suffixes L). T \<noteq> [] \<longrightarrow> (prefix T r \<or> prefix r T) \<longrightarrow> prefix T L"
    and c3: "\<forall>D \<in> set (suffixes r). D \<noteq> [] \<longrightarrow> \<not> prefix D L"
  shows "\<not> sublist L (replaceAll (literal L) (\<lambda>_. r) s)"
proof (induction s rule: length_induct)
  case (1 s)
  note IH = 1(1)
  let ?R = "replaceAll (literal L) (\<lambda>_. r)"
  show ?case
  proof (cases s)
    case Nil
    with assms(1) show ?thesis by (simp add: replaceAll_literal_Nil)
  next
    case s: (Cons c cs)
    show ?thesis
    proof (cases "prefix L (c # cs)")
      case False
      then have R: "?R s = c # ?R cs" using s by (simp add: replaceAll_literal_nomatch)
      have "\<not> prefix L (?R s)"
        using literal_prefix [OF assms(1) cq suffix_order.refl] False s by blast
      moreover have "\<not> sublist L (?R cs)" using IH s by simp
      ultimately show ?thesis using R by (simp add: sublist_Cons_right)
    next
      case True
      then obtain rest where rest: "s = L @ rest" using s by (auto simp: prefix_def)
      then have R: "?R s = r @ ?R rest" using assms(1) by (simp add: replaceAll_literal_match)
      have shorter: "length rest < length s" using rest assms(1) by simp
      have free: "\<not> sublist L (?R rest)" using IH shorter by simp
      have "\<not> (\<exists>P1 P2. L = P1 @ P2 \<and> suffix P1 r \<and> prefix P2 (?R rest))"
      proof
        assume "\<exists>P1 P2. L = P1 @ P2 \<and> suffix P1 r \<and> prefix P2 (?R rest)"
        then obtain P1 P2 where P: "L = P1 @ P2" and P1: "suffix P1 r" and P2: "prefix P2 (?R rest)"
          by blast
        show False
        proof (cases "P1 = []")
          case True
          with P P2 have "sublist L (?R rest)" by (simp add: prefix_imp_sublist)
          with free show False by simp
        next
          case False
          with c3 P1 P show False by auto
        qed
      qed
      with free c1 R show ?thesis by (simp add: sublist_append)
    qed
  qed
qed

lemma literal_set:
  "L \<noteq> [] \<Longrightarrow> set (replaceAll (literal L) (\<lambda>_. r) s) \<subseteq> set s \<union> set r"
proof (induction s rule: length_induct)
  case (1 s)
  let ?R = "replaceAll (literal L) (\<lambda>_. r)"
  show ?case
  proof (cases s)
    case Nil
    with 1(2) show ?thesis by (simp add: replaceAll_literal_Nil)
  next
    case s: (Cons c cs)
    show ?thesis
    proof (cases "prefix L (c # cs)")
      case False
      then have "?R s = c # ?R cs" using s by (simp add: replaceAll_literal_nomatch)
      moreover have "set (?R cs) \<subseteq> set cs \<union> set r" using 1 s by simp
      ultimately show ?thesis using s by auto
    next
      case True
      then obtain rest where rest: "s = L @ rest" using s by (auto simp: prefix_def)
      then have "?R s = r @ ?R rest" using 1(2) by (simp add: replaceAll_literal_match)
      moreover have "set (?R rest) \<subseteq> set rest \<union> set r" using 1 rest by simp
      ultimately show ?thesis using rest by auto
    qed
  qed
qed

lemma literal_fixed:
  "L \<noteq> [] \<Longrightarrow> \<not> sublist L s \<Longrightarrow> replaceAll (literal L) rep s = s"
proof (rule replaceAll_no_match)
  fix t
  assume "L \<noteq> []" "\<not> sublist L s" "suffix t s"
  then have "\<not> prefix L t"
    by (metis prefix_imp_sublist sublist_order.order.trans suffix_imp_sublist)
  then show "literal L t = None" by (simp add: literal_None)
qed

subsection \<open>Collapsing whitespace\<close>

lemma replaceAll_spaces_Nil: "replaceAll reSpaces rep [] = []"
  by (simp add: replaceAll.simps reSpaces_def)

lemma replaceAll_spaces_Cons:
  "replaceAll reSpaces rep (c # cs) =
     (if isWhiteSpace c then rep [] @ replaceAll reSpaces rep (dropWhile isWhiteSpace cs)
      else c # replaceAll reSpaces rep cs)"
  by (simp add: replaceAll.simps reSpaces_def length_dropWhile_le)

lemma space_is_white: "isWhiteSpace (CHR '' '')"
  by (simp add: isWhiteSpace_def)

lemma spaces_only_space:
  "\<forall>c \<in> set (replaceAll reSpaces (\<lambda>_. '' '') s). isWhiteSpace c \<longrightarrow> c = CHR '' ''"
proof (induction s rule: length_induct)
  case (1 s)
  show ?case
  proof (cases s)
    case Nil
    then show ?thesis by (simp add: replaceAll_spaces_Nil)
  next
    case (Cons c cs)
    have "length (dropWhile isWhiteSpace cs) < length s"
      using Cons by (simp add: length_dropWhile_le less_Suc_eq_le)
    with 1 have a: "\<forall>c \<in> set (replaceAll reSpaces (\<lambda>_. '' '') (dropWhile isWhiteSpace cs)).
        isWhiteSpace c \<longrightarrow> c = CHR '' ''" by blast
    have "length cs < length s" using Cons by simp
    with 1 have b: "\<forall>c \<in> set (replaceAll reSpaces (\<lambda>_. '' '') cs).
        isWhiteSpace c \<longrightarrow> c = CHR '' ''" by blast
    from a b Cons show ?thesis by (simp add: replaceAll_spaces_Cons)
  qed
qed

lemma spaces_head:
  "\<not> prefix '' '' (replaceAll reSpaces (\<lambda>_. '' '') (dropWhile isWhiteSpace s))"
proof (cases "dropWhile isWhiteSpace s")
  case Nil
  have "replaceAll reSpaces (\<lambda>_. '' '') (dropWhile isWhiteSpace s) = []"
    by (metis Nil replaceAll_spaces_Nil)
  then show ?thesis by simp
next
  case (Cons d ds)
  then have "\<not> isWhiteSpace d" by (metis hd_dropWhile list.distinct(1) list.sel(1))
  then have "d \<noteq> CHR '' ''" using space_is_white by auto
  with Cons \<open>\<not> isWhiteSpace d\<close> show ?thesis by (simp add: replaceAll_spaces_Cons)
qed

lemma spaces_no_double:
  "\<not> sublist ''  '' (replaceAll reSpaces (\<lambda>_. '' '') s)"
proof (induction s rule: length_induct)
  case (1 s)
  let ?R = "replaceAll reSpaces (\<lambda>_. '' '')"
  show ?case
  proof (cases s)
    case Nil
    then show ?thesis by (simp add: replaceAll_spaces_Nil)
  next
    case (Cons c cs)
    show ?thesis
    proof (cases "isWhiteSpace c")
      case True
      have short: "length (dropWhile isWhiteSpace cs) < length s"
        using Cons by (simp add: length_dropWhile_le less_Suc_eq_le)
      have R: "?R s = CHR '' '' # ?R (dropWhile isWhiteSpace cs)"
        using True Cons by (simp add: replaceAll_spaces_Cons)
      have "\<not> sublist ''  '' (?R (dropWhile isWhiteSpace cs))" using 1 short by simp
      moreover have "\<not> prefix '' '' (?R (dropWhile isWhiteSpace cs))" by (rule spaces_head)
      ultimately show ?thesis using R by (simp add: sublist_Cons_right)
    next
      case False
      then have "c \<noteq> CHR '' ''" using space_is_white by auto
      moreover have "\<not> sublist ''  '' (?R cs)" using 1 Cons by simp
      ultimately show ?thesis using False Cons
        by (simp add: replaceAll_spaces_Cons sublist_Cons_right)
    qed
  qed
qed

lemma spaced_spaces: "spaced (replaceAll reSpaces (\<lambda>_. '' '') s)"
  using spaces_only_space spaces_no_double by (simp add: spaced_def)

lemma spaced_Cons: "spaced (c # cs) \<Longrightarrow> spaced cs"
  by (auto simp: spaced_def sublist_Cons_right)

lemma spaced_suffix: "spaced s \<Longrightarrow> suffix t s \<Longrightarrow> spaced t"
  unfolding spaced_def
  by (meson set_mono_suffix subsetD sublist_order.order.trans suffix_imp_sublist)

lemma spaced_next:
  assumes "spaced (c # cs)" and "isWhiteSpace c"
  shows "c = CHR '' '' \<and> dropWhile isWhiteSpace cs = cs"
proof -
  have c: "c = CHR '' ''" using assms by (simp add: spaced_def)
  have "dropWhile isWhiteSpace cs = cs"
  proof (cases cs)
    case Nil
    then show ?thesis by simp
  next
    case (Cons d ds)
    have "\<not> isWhiteSpace d"
    proof
      assume "isWhiteSpace d"
      then have "d = CHR '' ''" using assms(1) Cons by (simp add: spaced_def)
      with c Cons have "prefix ''  '' (c # cs)" by simp
      then have "sublist ''  '' (c # cs)" by (rule prefix_imp_sublist)
      with assms(1) show False by (simp add: spaced_def)
    qed
    with Cons show ?thesis by simp
  qed
  with c show ?thesis by simp
qed

lemma spaces_fixed: "spaced s \<Longrightarrow> replaceAll reSpaces (\<lambda>_. '' '') s = s"
proof (induction s)
  case Nil
  then show ?case by (simp add: replaceAll_spaces_Nil)
next
  case (Cons c cs)
  have IH: "replaceAll reSpaces (\<lambda>_. '' '') cs = cs"
    using Cons by (simp add: spaced_Cons)
  show ?case
  proof (cases "isWhiteSpace c")
    case True
    with spaced_next [OF Cons.prems] IH show ?thesis by (simp add: replaceAll_spaces_Cons)
  next
    case False
    with IH show ?thesis by (simp add: replaceAll_spaces_Cons)
  qed
qed

subsection \<open>The substitutions of the second stage\<close>

lemma between_free:
  "\<not> sublist ''> <'' (replaceAll (literal ''> <'') (\<lambda>_. ''><'') s)"
  by (rule literal_makes_free) (simp_all add: containsStr_sublist [symmetric] suffix_Cons)

lemma break_free:
  "\<not> sublist ''<p><br></p>'' (replaceAll (literal ''<p><br></p>'') (\<lambda>_. ''<p>&nbsp;</p>'') s)"
  by (rule literal_makes_free) (simp_all add: containsStr_sublist [symmetric] suffix_Cons)

lemma blank_free:
  "\<not> sublist ''<p></p>'' (replaceAll (literal ''<p></p>'') (\<lambda>_. ''<p>&nbsp;</p>'') s)"
  by (rule literal_makes_free) (simp_all add: containsStr_sublist [symmetric] suffix_Cons)

lemma break_keeps_between:
  "\<not> sublist ''> <'' s \<Longrightarrow>
     \<not> sublist ''> <'' (replaceAll (literal ''<p><br></p>'') (\<lambda>_. ''<p>&nbsp;</p>'') s)"
  by (rule notI, erule notE, erule literal_keeps_free [rotated -1])
     (simp_all add: containsStr_sublist [symmetric] suffix_Cons)

lemma blank_keeps_between:
  "\<not> sublist ''> <'' s \<Longrightarrow>
     \<not> sublist ''> <'' (replaceAll (literal ''<p></p>'') (\<lambda>_. ''<p>&nbsp;</p>'') s)"
  by (rule notI, erule notE, erule literal_keeps_free [rotated -1])
     (simp_all add: containsStr_sublist [symmetric] suffix_Cons)

lemma blank_keeps_break:
  "\<not> sublist ''<p><br></p>'' s \<Longrightarrow>
     \<not> sublist ''<p><br></p>'' (replaceAll (literal ''<p></p>'') (\<lambda>_. ''<p>&nbsp;</p>'') s)"
  by (rule notI, erule notE, erule literal_keeps_free [rotated -1])
     (simp_all add: containsStr_sublist [symmetric] suffix_Cons)

lemma literal_spaced:
  assumes "L \<noteq> []" and "r \<noteq> []" and "\<forall>c \<in> set r. \<not> isWhiteSpace c" and "spaced s"
  shows "spaced (replaceAll (literal L) (\<lambda>_. r) s)"
proof -
  let ?R = "replaceAll (literal L) (\<lambda>_. r)"
  have sp: "CHR '' '' \<notin> set r" using assms(3) space_is_white by auto
  obtain d ds where r: "r = d # ds" using assms(2) by (cases r) auto
  have d: "d \<noteq> CHR '' ''" using sp r by auto
  have "set (?R s) \<subseteq> set s \<union> set r" using assms(1) by (rule literal_set)
  then have only: "\<forall>c \<in> set (?R s). isWhiteSpace c \<longrightarrow> c = CHR '' ''"
    using assms(3,4) by (auto simp: spaced_def)
  have c1: "\<not> sublist ''  '' r"
    using sp by (metis list.set_intros(1) set_mono_sublist subsetD)
  have cq: "\<forall>T \<in> set (suffixes ''  ''). T \<noteq> [] \<longrightarrow> (prefix T r \<or> prefix r T) \<longrightarrow> prefix T L"
    using d r by simp
  have c3: "\<forall>D \<in> set (suffixes r). D \<noteq> [] \<and> D \<noteq> r \<and> prefix D ''  '' \<longrightarrow> suffix D L"
  proof (intro ballI impI)
    fix D assume D: "D \<in> set (suffixes r)" and h: "D \<noteq> [] \<and> D \<noteq> r \<and> prefix D ''  ''"
    from h obtain e es where "D = e # es" by (cases D) auto
    with h have "e = CHR '' ''" by simp
    moreover have "set D \<subseteq> set r" using D by (simp add: set_mono_suffix)
    ultimately have False using sp \<open>D = e # es\<close> by auto
    then show "suffix D L" ..
  qed
  have "\<not> sublist ''  '' (?R s)"
    using literal_keeps_free [OF assms(1) c1 cq c3] assms(4) by (auto simp: spaced_def)
  with only show ?thesis by (simp add: spaced_def)
qed

lemma between_cuts: "reSpacesBetweenTags t = Some (g, rest) \<Longrightarrow> suffix rest t"
proof -
  assume m: "reSpacesBetweenTags t = Some (g, rest)"
  then obtain c w cs where t: "t = c # w # cs"
    by (auto simp: reSpacesBetweenTags_def split: list.splits)
  with m have "stripPrefix ''<'' (dropWhile isWhiteSpace cs) = Some rest"
    by (auto simp: reSpacesBetweenTags_def split: if_splits option.splits)
  then have "dropWhile isWhiteSpace cs = ''<'' @ rest" by (simp add: stripPrefix_Some)
  then have "suffix rest (dropWhile isWhiteSpace cs)" by (simp add: suffix_def)
  then have "suffix rest cs" using suffix_dropWhile suffix_order.trans by blast
  with t show ?thesis by (simp add: suffix_Cons)
qed

lemma between_literal:
  assumes "spaced s"
  shows "reSpacesBetweenTags s = literal ''> <'' s"
proof (cases s)
  case Nil
  then show ?thesis by (simp add: reSpacesBetweenTags_def literal_def)
next
  case s: (Cons c s')
  show ?thesis
  proof (cases s')
    case Nil
    with s show ?thesis by (simp add: reSpacesBetweenTags_def literal_def)
  next
    case (Cons w cs)
    show ?thesis
    proof (cases "isWhiteSpace w")
      case True
      have "spaced (w # cs)" using assms s Cons spaced_Cons by blast
      from spaced_next [OF this True] s Cons show ?thesis
        by (simp add: reSpacesBetweenTags_def literal_def space_is_white split: option.splits)
    next
      case False
      then have "w \<noteq> CHR '' ''" using space_is_white by auto
      with False s Cons show ?thesis by (simp add: reSpacesBetweenTags_def literal_def)
    qed
  qed
qed

lemma between_as_literal:
  assumes "spaced s"
  shows "replaceAll reSpacesBetweenTags rep s = replaceAll (literal ''> <'') rep s"
proof (rule replaceAll_cong_suffix)
  fix t assume "suffix t s"
  with assms have "spaced t" by (rule spaced_suffix)
  then show "reSpacesBetweenTags t = literal ''> <'' t" by (rule between_literal)
next
  fix t g rest assume "reSpacesBetweenTags t = Some (g, rest)"
  then show "suffix rest t" by (rule between_cuts)
qed

lemma blank_cuts: "reBlankParagraph t = Some (g, rest) \<Longrightarrow> suffix rest t"
proof -
  assume m: "reBlankParagraph t = Some (g, rest)"
  then obtain r where r: "stripPrefix ''<p>'' t = Some r"
    and rest: "stripPrefix ''</p>'' (dropWhile isWhiteSpace r) = Some rest"
    by (auto simp: reBlankParagraph_def split: option.splits)
  from rest have "suffix rest (dropWhile isWhiteSpace r)" by (simp add: stripPrefix_Some suffix_def)
  then have "suffix rest r" using suffix_dropWhile suffix_order.trans by blast
  moreover from r have "suffix r t" by (simp add: stripPrefix_Some suffix_def)
  ultimately show ?thesis by (rule suffix_order.trans)
qed

lemma blank_literal:
  assumes "spaced s" and "\<not> sublist ''> <'' s"
  shows "reBlankParagraph s = literal ''<p></p>'' s"
proof (cases "stripPrefix ''<p>'' s")
  case None
  then have "\<not> prefix ''<p>'' s" by (simp add: stripPrefix_None)
  then have "\<not> prefix ''<p></p>'' s" by (auto simp: prefix_def)
  then have "stripPrefix ''<p></p>'' s = None" by (simp add: stripPrefix_None)
  with None show ?thesis by (simp add: reBlankParagraph_def literal_def)
next
  case (Some r)
  then have s: "s = ''<p>'' @ r" by (simp add: stripPrefix_Some)
  have lit: "literal ''<p></p>'' s = map_option (\<lambda>rest. ([], rest)) (stripPrefix ''</p>'' r)"
    using s by (simp add: literal_def)
  show ?thesis
  proof (cases r)
    case Nil
    with Some lit show ?thesis by (simp add: reBlankParagraph_def)
  next
    case (Cons w r')
    show ?thesis
    proof (cases "isWhiteSpace w")
      case False
      with Some lit Cons show ?thesis by (simp add: reBlankParagraph_def)
    next
      case True
      have "suffix (w # r') s" using s Cons by (simp add: suffix_def)
      with assms(1) have "spaced (w # r')" by (rule spaced_suffix)
      from spaced_next [OF this True] have w: "w = CHR '' ''" and dw: "dropWhile isWhiteSpace r' = r'"
        by simp_all
      have "\<not> prefix ''<'' r'"
      proof
        assume "prefix ''<'' r'"
        then obtain r'' where "r' = ''<'' @ r''" by (auto simp: prefix_def)
        with s Cons w have "s = ''<p'' @ ''> <'' @ r''" by simp
        then have "sublist ''> <'' s" unfolding sublist_def by blast
        with assms(2) show False by simp
      qed
      then have "\<not> prefix ''</p>'' r'" by (auto simp: prefix_def)
      then have "stripPrefix ''</p>'' r' = None" by (simp add: stripPrefix_None)
      with Some lit Cons True w dw show ?thesis
        by (simp add: reBlankParagraph_def space_is_white)
    qed
  qed
qed

lemma blank_as_literal:
  assumes "spaced s" and "\<not> sublist ''> <'' s"
  shows "replaceAll reBlankParagraph rep s = replaceAll (literal ''<p></p>'') rep s"
proof (rule replaceAll_cong_suffix)
  fix t assume t: "suffix t s"
  with assms(1) have "spaced t" by (rule spaced_suffix)
  moreover have "\<not> sublist ''> <'' t"
    using assms(2) t by (meson sublist_order.order.trans suffix_imp_sublist)
  ultimately show "reBlankParagraph t = literal ''<p></p>'' t" by (rule blank_literal)
next
  fix t g rest assume "reBlankParagraph t = Some (g, rest)"
  then show "suffix rest t" by (rule blank_cuts)
qed

lemma break_is_literal: "reBreakParagraph = literal ''<p><br></p>''"
  by (rule ext) (simp add: reBreakParagraph_def literal_def)

subsection \<open>The second stage is idempotent\<close>

lemma prefix_rev_dropWhile: "prefix (rev (dropWhile P (rev xs))) xs"
proof -
  have "suffix (dropWhile P (rev xs)) (rev xs)" by (rule suffix_dropWhile)
  then show ?thesis by (simp add: suffix_to_prefix)
qed

lemma trim_sublist: "sublist (trim s) s"
proof -
  have "prefix (trim s) (dropWhile isWhiteSpace s)"
    unfolding trim_def by (rule prefix_rev_dropWhile)
  then have "sublist (trim s) (dropWhile isWhiteSpace s)" by (rule prefix_imp_sublist)
  moreover have "sublist (dropWhile isWhiteSpace s) s"
    using suffix_dropWhile by (rule suffix_imp_sublist)
  ultimately show ?thesis by (rule sublist_order.order.trans)
qed

lemma trim_trim: "trim (trim s) = trim s"
proof -
  let ?t = "dropWhile isWhiteSpace s"
  let ?u = "trim s"
  have rear: "dropWhile isWhiteSpace (rev ?u) = rev ?u"
    by (simp add: trim_def dropWhile_idem)
  have front: "dropWhile isWhiteSpace ?u = ?u"
  proof (cases ?u)
    case Nil
    then show ?thesis by simp
  next
    case (Cons c cs)
    have "prefix ?u ?t" unfolding trim_def by (rule prefix_rev_dropWhile)
    with Cons obtain ts where t: "?t = c # ts" by (auto simp: prefix_def)
    then have "\<not> isWhiteSpace c" by (metis hd_dropWhile list.distinct(1) list.sel(1))
    with Cons show ?thesis by simp
  qed
  have "trim ?u = rev (dropWhile isWhiteSpace (rev (dropWhile isWhiteSpace ?u)))"
    by (simp only: trim_def)
  also have "\<dots> = rev (dropWhile isWhiteSpace (rev ?u))" by (simp only: front)
  also have "\<dots> = ?u" by (simp only: rear rev_rev_ident)
  finally show ?thesis .
qed

lemma spaced_sublist: "spaced s \<Longrightarrow> sublist t s \<Longrightarrow> spaced t"
  unfolding spaced_def
  by (meson set_mono_sublist subsetD sublist_order.order.trans)

lemma free_sublist: "\<not> sublist P s \<Longrightarrow> sublist t s \<Longrightarrow> \<not> sublist P t"
  by (meson sublist_order.order.trans)

lemma tidy_tidied: "tidied (tidy s)"
proof -
  let ?w4 = "replaceAll reSpaces (\<lambda>_. '' '') s"
  let ?w5 = "replaceAll reSpacesBetweenTags (\<lambda>_. ''><'') ?w4"
  let ?w6 = "replaceAll reBreakParagraph (\<lambda>_. ''<p>&nbsp;</p>'') ?w5"
  let ?w7 = "replaceAll reBlankParagraph (\<lambda>_. ''<p>&nbsp;</p>'') ?w6"
  have s4: "spaced ?w4" by (rule spaced_spaces)
  have w5: "?w5 = replaceAll (literal ''> <'') (\<lambda>_. ''><'') ?w4"
    using s4 by (rule between_as_literal)
  have s5: "spaced ?w5"
    unfolding w5 using s4 by (intro literal_spaced) (simp_all add: isWhiteSpace_def)
  have b5: "\<not> sublist ''> <'' ?w5" unfolding w5 by (rule between_free)
  have w6: "?w6 = replaceAll (literal ''<p><br></p>'') (\<lambda>_. ''<p>&nbsp;</p>'') ?w5"
    by (simp only: break_is_literal)
  have s6: "spaced ?w6"
    unfolding w6 using s5 by (intro literal_spaced) (simp_all add: isWhiteSpace_def)
  have b6: "\<not> sublist ''> <'' ?w6" unfolding w6 using b5 by (rule break_keeps_between)
  have p6: "\<not> sublist ''<p><br></p>'' ?w6" unfolding w6 by (rule break_free)
  have w7: "?w7 = replaceAll (literal ''<p></p>'') (\<lambda>_. ''<p>&nbsp;</p>'') ?w6"
    using s6 b6 by (rule blank_as_literal)
  have s7: "spaced ?w7"
    unfolding w7 using s6 by (intro literal_spaced) (simp_all add: isWhiteSpace_def)
  have b7: "\<not> sublist ''> <'' ?w7" unfolding w7 using b6 by (rule blank_keeps_between)
  have p7: "\<not> sublist ''<p><br></p>'' ?w7" unfolding w7 using p6 by (rule blank_keeps_break)
  have q7: "\<not> sublist ''<p></p>'' ?w7" unfolding w7 by (rule blank_free)
  have t: "tidy s = trim ?w7" by (simp add: tidy_def)
  have sub: "sublist (tidy s) ?w7" unfolding t by (rule trim_sublist)
  show ?thesis
    unfolding tidied_def
    using spaced_sublist [OF s7 sub] free_sublist [OF b7 sub] free_sublist [OF p7 sub]
      free_sublist [OF q7 sub] trim_trim [of ?w7] t
    by simp
qed

lemma between_fixed:
  assumes "spaced w" and "\<not> sublist ''> <'' w"
  shows "replaceAll reSpacesBetweenTags rep w = w"
  using assms by (simp add: between_as_literal literal_fixed)

lemma break_fixed:
  assumes "\<not> sublist ''<p><br></p>'' w"
  shows "replaceAll reBreakParagraph rep w = w"
  using assms by (simp add: break_is_literal literal_fixed)

lemma blank_fixed:
  assumes "spaced w" and "\<not> sublist ''> <'' w" and "\<not> sublist ''<p></p>'' w"
  shows "replaceAll reBlankParagraph rep w = w"
  using assms by (simp add: blank_as_literal literal_fixed)

lemma tidied_fixed: "tidied w \<Longrightarrow> tidy w = w"
  by (simp add: tidied_def tidy_def spaces_fixed between_fixed break_fixed blank_fixed)

lemma tidy_tidy: "tidy (tidy s) = tidy s"
  using tidy_tidied by (rule tidied_fixed)

lemma quillAttr_needs_quote: "reQuillAttr attr t = Some x \<Longrightarrow> DQUOTE \<in> set t"
  by (auto simp: reQuillAttr_def stripPrefix_Some split: option.splits)

lemma emptyClass_needs_quote: "reEmptyClass t = Some x \<Longrightarrow> DQUOTE \<in> set t"
proof -
  assume "reEmptyClass t = Some x"
  then obtain r1 r2 r3 where
    1: "dropWhile isWhiteSpace t = ''class'' @ r1" and
    2: "dropWhile isWhiteSpace r1 = ''='' @ r2" and
    3: "dropWhile isWhiteSpace r2 = [DQUOTE, DQUOTE] @ r3"
    by (auto simp: reEmptyClass_def stripPrefix_Some split: option.splits)
  from 3 have "DQUOTE \<in> set (dropWhile isWhiteSpace r2)" by simp
  then have "DQUOTE \<in> set r2" by (rule set_dropWhileD)
  with 2 have "DQUOTE \<in> set (dropWhile isWhiteSpace r1)" by simp
  then have "DQUOTE \<in> set r1" by (rule set_dropWhileD)
  with 1 have "DQUOTE \<in> set (dropWhile isWhiteSpace t)" by simp
  then show ?thesis by (rule set_dropWhileD)
qed

lemma no_quote_no_match:
  assumes "DQUOTE \<notin> set w" and "\<And>t x. m t = Some x \<Longrightarrow> DQUOTE \<in> set t"
  shows "replaceAll m rep w = w"
proof (rule replaceAll_no_match)
  fix t assume "suffix t w"
  then have "set t \<subseteq> set w" by (rule set_mono_suffix)
  with assms(1) have "DQUOTE \<notin> set t" by auto
  with assms(2) show "m t = None" by (cases "m t") auto
qed

lemma removeQuillAttributes_no_quote:
  "DQUOTE \<notin> set w \<Longrightarrow> removeQuillAttributes w = w"
  by (simp add: removeQuillAttributes_def no_quote_no_match quillAttr_needs_quote
      emptyClass_needs_quote)

lemma cleanHTMLForExport_stages:
  "cleanHTMLForExport x = tidy (removeQuillAttributes x)"
  by (simp add: cleanHTMLForExport_def tidy_def removeQuillAttributes_def)

text \<open>
  C8, as amended. For every input, cleaning the cleaned text changes nothing whenever
  the three attribute substitutions find nothing to delete in the cleaned text, and in
  particular whenever the cleaned text holds no double quote, as it does when the only
  attributes of the input were Quill class and style attributes. The substitutions on
  whitespace and empty paragraphs are idempotent on every input.
\<close>

theorem cleanHTMLForExport_twice:
  "(removeQuillAttributes (cleanHTMLForExport x) = cleanHTMLForExport x
      \<longrightarrow> cleanHTMLForExport (cleanHTMLForExport x) = cleanHTMLForExport x)
   \<and> (DQUOTE \<notin> set (cleanHTMLForExport x)
      \<longrightarrow> cleanHTMLForExport (cleanHTMLForExport x) = cleanHTMLForExport x)
   \<and> tidy (tidy x) = tidy x"
proof -
  have a: "cleanHTMLForExport (cleanHTMLForExport x) = cleanHTMLForExport x"
    if "removeQuillAttributes (cleanHTMLForExport x) = cleanHTMLForExport x"
  proof -
    have "cleanHTMLForExport (cleanHTMLForExport x)
            = tidy (removeQuillAttributes (cleanHTMLForExport x))"
      by (rule cleanHTMLForExport_stages)
    also have "\<dots> = tidy (cleanHTMLForExport x)" by (simp only: that)
    also have "\<dots> = tidy (tidy (removeQuillAttributes x))"
      by (simp only: cleanHTMLForExport_stages)
    also have "\<dots> = tidy (removeQuillAttributes x)" by (rule tidy_tidy)
    also have "\<dots> = cleanHTMLForExport x" by (simp only: cleanHTMLForExport_stages)
    finally show ?thesis .
  qed
  show ?thesis using a removeQuillAttributes_no_quote tidy_tidy by blast
qed

theorem cleanHTMLForExport_twice_witness:
  "removeQuillAttributes (cleanHTMLForExport
       ''<p class=\"ql-align-center\"><a href=\"https://example.org\">Plan</a>  for  all</p>'')
     = cleanHTMLForExport
       ''<p class=\"ql-align-center\"><a href=\"https://example.org\">Plan</a>  for  all</p>''
   \<and> cleanHTMLForExport (cleanHTMLForExport
       ''<p class=\"ql-align-center\"><a href=\"https://example.org\">Plan</a>  for  all</p>'')
     = ''<p ><a href=\"https://example.org\">Plan</a> for all</p>''
   \<and> DQUOTE \<notin> set (cleanHTMLForExport
       ''<p class=\"ql-align-center\">Hi  there</p>   <p><br></p> <p> </p>'')
   \<and> cleanHTMLForExport (cleanHTMLForExport
       ''<p class=\"ql-align-center\">Hi  there</p>   <p><br></p> <p> </p>'')
     = ''<p >Hi there</p><p>&nbsp;</p><p>&nbsp;</p>''"
proof -
  have a: "cleanHTMLForExport
       ''<p class=\"ql-align-center\"><a href=\"https://example.org\">Plan</a>  for  all</p>''
     = ''<p ><a href=\"https://example.org\">Plan</a> for all</p>''"
    by code_simp
  have b: "removeQuillAttributes ''<p ><a href=\"https://example.org\">Plan</a> for all</p>''
     = ''<p ><a href=\"https://example.org\">Plan</a> for all</p>''"
    by code_simp
  have c: "cleanHTMLForExport ''<p class=\"ql-align-center\">Hi  there</p>   <p><br></p> <p> </p>''
     = ''<p >Hi there</p><p>&nbsp;</p><p>&nbsp;</p>''"
    by code_simp
  show ?thesis
    using cleanHTMLForExport_twice
        [of "''<p class=\"ql-align-center\"><a href=\"https://example.org\">Plan</a>  for  all</p>''"]
      cleanHTMLForExport_twice
        [of "''<p class=\"ql-align-center\">Hi  there</p>   <p><br></p> <p> </p>''"]
    by (simp only: a b c) simp
qed

text \<open>
  For every input the claim fails: deleting one Quill attribute can splice the text
  around it into a new one, which only the second pass deletes.
\<close>

theorem cleanHTMLForExport_spliced_counterexample:
  "cleanHTMLForExport ''class=\"class=\"ql-a\"ql-b\"'' = ''class=\"ql-b\"''
   \<and> cleanHTMLForExport (cleanHTMLForExport ''class=\"class=\"ql-a\"ql-b\"'') = []"
  by code_simp

end
